theory Spec2Isabelle
  imports Complex_Main "HOL-Library.Word"
begin

section \<open>The RaffoSynth engine (moog\_engine.h, moog\_engine.c)\<close>

text \<open>
  The engine is one C struct that every operation mutates in place; here it is a record
  and every operation returns the updated record.  The C types \<open>float\<close> and
  \<open>double\<close> are both read as \<open>real\<close>: arithmetic is exact, rounding, infinities
  and NaN are not represented.  A C \<open>int\<close> is an \<open>int\<close>; the engine's integers
  (notes, counts, octave offsets) stay far from the 32-bit limits.  A fixed-size C array
  is a function from the index, of which the code only ever touches the declared range.
\<close>

subsection \<open>Constants and data\<close>

definition MOOG_MAX_KEYS :: int where "MOOG_MAX_KEYS = 16"
definition MOOG_SAMPLE_RATE :: real where "MOOG_SAMPLE_RATE = 44100"
definition MOOG_MAX_RENDER :: int where "MOOG_MAX_RENDER = 256"

datatype moog_env_state_t = ENV_OFF | ENV_ATTACK | ENV_DECAY | ENV_SUSTAIN | ENV_RELEASE

text \<open>\<open>WAVE_COUNT\<close> is the enum's fifth value; \<open>generate_osc\<close> sends it to its default branch.\<close>

datatype moog_wave_t = WAVE_TRIANGLE | WAVE_SAWTOOTH | WAVE_SQUARE | WAVE_PULSE | WAVE_COUNT

record moog_engine_t =
  sample_rate :: real
  osc_wave :: "nat \<Rightarrow> moog_wave_t"
  osc_volume :: "nat \<Rightarrow> real"
  osc_range :: "nat \<Rightarrow> int"
  osc2_detune :: real
  osc3_detune :: real
  osc4_detune :: real
  filter_cutoff :: real
  filter_resonance :: real
  filter_contour :: real
  filter_key_follow :: real
  amp_attack :: real
  amp_decay :: real
  amp_sustain :: real
  amp_release :: real
  filt_attack :: real
  filt_decay :: real
  filt_sustain :: real
  filt_release :: real
  glide :: real
  master_volume :: real
  noise_volume :: real
  mod_wheel :: real
  mod_to_filter :: real
  mod_to_pitch :: real
  pitch_bend :: real
  bend_range :: real
  counter :: real
  period :: real
  glide_period :: real
  last_val :: "nat \<Rightarrow> real"
  amp_env_state :: moog_env_state_t
  amp_env_level :: real
  amp_env_attack_level :: real
  amp_env_release_level :: real
  amp_env_counter :: real
  filt_env_state :: moog_env_state_t
  filt_env_level :: real
  filt_env_attack_level :: real
  filt_env_release_level :: real
  filt_env_counter :: real
  filter_prev :: "nat \<Rightarrow> real"
  noise_seed :: "32 word"
  current_note :: int
  gate_on :: int
  key_stack :: "nat \<Rightarrow> int"
  key_stack_count :: int
  octave_transpose :: int
  lfo_rate :: real
  lfo_phase :: real
  lfo_depth_pitch :: real
  lfo_depth_filter :: real
  velocity :: real
  velocity_sensitivity :: real

subsection \<open>Utility functions\<close>

text \<open>\<open>pow(1.0594630943593, note)\<close>: the base is positive, so \<open>powr\<close> is C's \<open>pow\<close>.\<close>

definition note_to_hz :: "int \<Rightarrow> real" where
  "note_to_hz note = 8.1758 * 1.0594630943593 powr (real_of_int note)"

definition hz_to_period :: "real \<Rightarrow> real \<Rightarrow> real" where
  "hz_to_period hz sr = (if hz < 1.0 then sr else sr / hz)"

definition clampf :: "real \<Rightarrow> real \<Rightarrow> real \<Rightarrow> real" where
  "clampf v lo hi = (if v < lo then lo else if v > hi then hi else v)"

definition param_to_time :: "real \<Rightarrow> real \<Rightarrow> real" where
  "param_to_time param sr = (let seconds = 0.001 + param * param * 5.0 in seconds * sr)"

subsection \<open>Engine lifecycle\<close>

text \<open>The struct after \<open>memset(engine, 0, sizeof(moog_engine_t))\<close>.\<close>

definition engine_zero :: moog_engine_t where
  "engine_zero = \<lparr>
     sample_rate = 0, osc_wave = (\<lambda>_. WAVE_TRIANGLE), osc_volume = (\<lambda>_. 0),
     osc_range = (\<lambda>_. 0), osc2_detune = 0, osc3_detune = 0, osc4_detune = 0,
     filter_cutoff = 0, filter_resonance = 0, filter_contour = 0, filter_key_follow = 0,
     amp_attack = 0, amp_decay = 0, amp_sustain = 0, amp_release = 0,
     filt_attack = 0, filt_decay = 0, filt_sustain = 0, filt_release = 0,
     glide = 0, master_volume = 0, noise_volume = 0,
     mod_wheel = 0, mod_to_filter = 0, mod_to_pitch = 0, pitch_bend = 0, bend_range = 0,
     counter = 0, period = 0, glide_period = 0, last_val = (\<lambda>_. 0),
     amp_env_state = ENV_OFF, amp_env_level = 0, amp_env_attack_level = 0,
     amp_env_release_level = 0, amp_env_counter = 0,
     filt_env_state = ENV_OFF, filt_env_level = 0, filt_env_attack_level = 0,
     filt_env_release_level = 0, filt_env_counter = 0,
     filter_prev = (\<lambda>_. 0), noise_seed = 0, current_note = 0, gate_on = 0,
     key_stack = (\<lambda>_. 0), key_stack_count = 0, octave_transpose = 0,
     lfo_rate = 0, lfo_phase = 0, lfo_depth_pitch = 0, lfo_depth_filter = 0,
     velocity = 0, velocity_sensitivity = 0 \<rparr>"

definition moog_engine_init :: moog_engine_t where
  "moog_engine_init =
     (let e = engine_zero \<lparr>
        sample_rate := MOOG_SAMPLE_RATE,
        osc_wave := (\<lambda>_. WAVE_TRIANGLE)
          (0 := WAVE_SAWTOOTH, 1 := WAVE_SAWTOOTH, 2 := WAVE_SAWTOOTH, 3 := WAVE_TRIANGLE),
        osc_volume := (\<lambda>_. 0) (0 := 0.8, 1 := 0.0, 2 := 0.0, 3 := 0.0),
        osc_range := (\<lambda>_. 0) (0 := 0, 1 := 0, 2 := - 1, 3 := 0),
        osc2_detune := 0.0, osc3_detune := 0.0, osc4_detune := 0.5,
        filter_cutoff := 0.7, filter_resonance := 0.2, filter_contour := 0.3,
        filter_key_follow := 0.0,
        amp_attack := 0.01, amp_decay := 0.3, amp_sustain := 0.7, amp_release := 0.2,
        filt_attack := 0.01, filt_decay := 0.3, filt_sustain := 0.3, filt_release := 0.2,
        glide := 0.0, master_volume := 0.7, noise_volume := 0.0,
        mod_to_filter := 0.5, mod_to_pitch := 0.5, bend_range := 0.167,
        velocity_sensitivity := 0.5, velocity := 1.0,
        lfo_rate := 0.3, lfo_depth_pitch := 0.0, lfo_depth_filter := 0.0,
        noise_seed := 12345 \<rparr>;
        e = e \<lparr> period := hz_to_period (note_to_hz 60) (sample_rate e) \<rparr>
      in e \<lparr> glide_period := period e \<rparr>)"

definition moog_engine_reset :: "moog_engine_t \<Rightarrow> moog_engine_t" where
  "moog_engine_reset engine = engine \<lparr>
     amp_env_state := ENV_OFF, amp_env_level := 0.0, amp_env_counter := 0,
     filt_env_state := ENV_OFF, filt_env_level := 0.0, filt_env_counter := 0,
     gate_on := 0, current_note := - 1, key_stack_count := 0, counter := 0,
     filter_prev := (\<lambda>_. 0), last_val := (\<lambda>_. 0) \<rparr>"

subsection \<open>MIDI handlers\<close>

definition moog_engine_note_on :: "moog_engine_t \<Rightarrow> int \<Rightarrow> real \<Rightarrow> moog_engine_t" where
  "moog_engine_note_on engine note vel =
     (let e = (if key_stack_count engine < MOOG_MAX_KEYS
               then engine \<lparr> key_stack := (key_stack engine) (nat (key_stack_count engine) := note),
                             key_stack_count := key_stack_count engine + 1 \<rparr>
               else engine);
          effective_note = note + octave_transpose e * 12;
          effective_note = (if effective_note < 0 then 0 else effective_note);
          effective_note = (if effective_note > 127 then 127 else effective_note);
          target_period = hz_to_period (note_to_hz effective_note) (sample_rate e);
          e = (if gate_on e \<noteq> 0 \<and> glide e > 0.001
               then e \<lparr> glide_period := target_period \<rparr>
               else e \<lparr> period := target_period, glide_period := target_period \<rparr>);
          e = e \<lparr> current_note := note, velocity := vel \<rparr>
      in if gate_on e \<noteq> 0 then e
         else e \<lparr> gate_on := 1,
                  amp_env_attack_level := amp_env_level e,
                  amp_env_state := ENV_ATTACK,
                  amp_env_counter := 0,
                  filt_env_attack_level := filt_env_level e,
                  filt_env_state := ENV_ATTACK,
                  filt_env_counter := 0 \<rparr>)"

text \<open>The inner loop of \<open>note_off\<close>: \<open>for (j = i; j < count - 1; j++) ks[j] = ks[j + 1]\<close>.\<close>

function shift_down :: "(nat \<Rightarrow> int) \<Rightarrow> int \<Rightarrow> int \<Rightarrow> (nat \<Rightarrow> int)" where
  "shift_down ks cnt j =
     (if j < cnt - 1 then shift_down (ks (nat j := ks (nat (j + 1)))) cnt (j + 1) else ks)"
  by pat_completeness auto
termination
  by (relation "measure (\<lambda>(ks, cnt, j). nat (cnt - 1 - j))") auto

declare shift_down.simps [simp del]

text \<open>
  The outer loop: search from index \<open>i\<close> for the first entry equal to \<open>note\<close>, close the
  gap, decrement the count and \<open>break\<close>.  The result is the array and the count.
\<close>

function remove_key :: "(nat \<Rightarrow> int) \<Rightarrow> int \<Rightarrow> int \<Rightarrow> int \<Rightarrow> (nat \<Rightarrow> int) \<times> int" where
  "remove_key ks cnt note i =
     (if i < cnt
      then (if ks (nat i) = note then (shift_down ks cnt i, cnt - 1)
            else remove_key ks cnt note (i + 1))
      else (ks, cnt))"
  by pat_completeness auto
termination
  by (relation "measure (\<lambda>(ks, cnt, note, i). nat (cnt - i))") auto

declare remove_key.simps [simp del]

definition moog_engine_note_off :: "moog_engine_t \<Rightarrow> int \<Rightarrow> moog_engine_t" where
  "moog_engine_note_off engine note =
     (let (ks, cnt) = remove_key (key_stack engine) (key_stack_count engine) note 0;
          e = engine \<lparr> key_stack := ks, key_stack_count := cnt \<rparr>
      in if key_stack_count e > 0
         then
           (let new_note = key_stack e (nat (key_stack_count e - 1));
                effective_note = new_note + octave_transpose e * 12;
                effective_note = (if effective_note < 0 then 0 else effective_note);
                effective_note = (if effective_note > 127 then 127 else effective_note);
                target_period = hz_to_period (note_to_hz effective_note) (sample_rate e);
                e = e \<lparr> current_note := new_note \<rparr>
            in if glide e > 0.001
               then e \<lparr> glide_period := target_period \<rparr>
               else e \<lparr> period := target_period, glide_period := target_period \<rparr>)
         else
           (let e = e \<lparr> gate_on := 0 \<rparr>;
                e = (if amp_env_state e \<noteq> ENV_OFF
                     then e \<lparr> amp_env_release_level := amp_env_level e,
                              amp_env_state := ENV_RELEASE,
                              amp_env_counter := 0 \<rparr>
                     else e)
            in if filt_env_state e \<noteq> ENV_OFF
               then e \<lparr> filt_env_release_level := filt_env_level e,
                        filt_env_state := ENV_RELEASE,
                        filt_env_counter := 0 \<rparr>
               else e))"

definition moog_engine_pitch_bend :: "moog_engine_t \<Rightarrow> real \<Rightarrow> moog_engine_t" where
  "moog_engine_pitch_bend engine bend = engine \<lparr> pitch_bend := bend \<rparr>"

definition moog_engine_mod_wheel :: "moog_engine_t \<Rightarrow> real \<Rightarrow> moog_engine_t" where
  "moog_engine_mod_wheel engine amount = engine \<lparr> mod_wheel := amount \<rparr>"

definition moog_engine_all_notes_off :: "moog_engine_t \<Rightarrow> moog_engine_t" where
  "moog_engine_all_notes_off engine = engine \<lparr>
     key_stack_count := 0, gate_on := 0,
     amp_env_state := ENV_OFF, amp_env_level := 0.0,
     filt_env_state := ENV_OFF, filt_env_level := 0.0,
     current_note := - 1 \<rparr>"

text \<open>The held notes in press order: the first \<open>key_stack_count\<close> entries of the array.\<close>

definition held :: "moog_engine_t \<Rightarrow> int list" where
  "held e = map (key_stack e) [0 ..< nat (key_stack_count e)]"

subsection \<open>Oscillator waveform generators\<close>

text \<open>C's \<open>fmod(x, y)\<close> is \<open>x - n * y\<close> with \<open>n\<close> the quotient truncated towards zero.\<close>

definition c_trunc :: "real \<Rightarrow> int" where
  "c_trunc r = (if 0 \<le> r then \<lfloor>r\<rfloor> else \<lceil>r\<rceil>)"

definition fmod :: "real \<Rightarrow> real \<Rightarrow> real" where
  "fmod x y = x - y * real_of_int (c_trunc (x / y))"

definition osc_triangle :: "real \<Rightarrow> real \<Rightarrow> real" where
  "osc_triangle cnt per =
     (let phase = fmod (cnt + per / 4.0) per / per in 4.0 * (\<bar>phase - 0.5\<bar> - 0.25))"

definition osc_sawtooth :: "real \<Rightarrow> real \<Rightarrow> real" where
  "osc_sawtooth cnt per = 2.0 * (fmod cnt per / per) - 1.0"

definition osc_square :: "real \<Rightarrow> real \<Rightarrow> real" where
  "osc_square cnt per = (if fmod cnt per / per < 0.5 then 1.0 else - 1.0)"

definition osc_pulse :: "real \<Rightarrow> real \<Rightarrow> real" where
  "osc_pulse cnt per = (if fmod cnt per / per < 0.2 then 1.0 else - 1.0)"

definition generate_osc :: "moog_wave_t \<Rightarrow> real \<Rightarrow> real \<Rightarrow> real" where
  "generate_osc wave cnt per =
     (case wave of
        WAVE_TRIANGLE \<Rightarrow> osc_triangle cnt per
      | WAVE_SAWTOOTH \<Rightarrow> osc_sawtooth cnt per
      | WAVE_SQUARE \<Rightarrow> osc_square cnt per
      | WAVE_PULSE \<Rightarrow> osc_pulse cnt per
      | WAVE_COUNT \<Rightarrow> 0.0)"

text \<open>
  The noise generator steps a 32-bit linear congruential seed (unsigned arithmetic wraps)
  and reads it as a signed integer.  It returns the new seed and the sample.
\<close>

definition noise_sample :: "32 word \<Rightarrow> 32 word \<times> real" where
  "noise_sample seed =
     (let seed = seed * 1664525 + 1013904223
      in (seed, real_of_int (sint seed) / 2147483647))"

subsection \<open>Moog ladder filter\<close>

text \<open>
  The coefficients and the per-sample update are written twice in the C file, with the
  same text: in \<open>moog_filter_process\<close> and inline in \<open>moog_engine_render\<close>.  Both
  are given here through the two functions below.  The five taps are
  \<open>(b0, b1, b2, b3, b4)\<close>, that is \<open>filter_prev[0..4]\<close>.
\<close>

definition ladder_coeffs :: "real \<Rightarrow> real \<Rightarrow> real \<Rightarrow> real \<times> real" where
  "ladder_coeffs cutoff_hz resonance sr =
     (let fc = cutoff_hz / sr;
          fc = (if fc > 0.49 then 0.49 else fc);
          fc = (if fc < 0.001 then 0.001 else fc);
          f = fc * 1.16;
          fb = resonance * (1.0 - 0.15 * f * f)
      in (f, fb))"

type_synonym taps = "real \<times> real \<times> real \<times> real \<times> real"

definition ladder_tick :: "real \<Rightarrow> real \<Rightarrow> taps \<Rightarrow> real \<Rightarrow> taps" where
  "ladder_tick f fb t x =
     (case t of (b0, b1, b2, b3, b4) \<Rightarrow>
       (let input = x - b4 * fb;
            input = input * (0.35013 * f * f * f * f);
            b1 = input + 0.3 * b0 + (1.0 - f) * b1;
            b0 = input;
            b2 = b1 + 0.3 * b1 + (1.0 - f) * b2;
            b3 = b2 + 0.3 * b2 + (1.0 - f) * b3;
            b4 = b3 + 0.3 * b3 + (1.0 - f) * b4;
            b4 = (if b4 > 4.0 then 4.0 else b4);
            b4 = (if b4 < - 4.0 then - 4.0 else b4)
        in (b0, b1, b2, b3, b4)))"

text \<open>The loop of \<open>moog_filter_process\<close> over the buffer, from the taps \<open>t\<close>.\<close>

fun filter_loop :: "real \<Rightarrow> real \<Rightarrow> taps \<Rightarrow> real list \<Rightarrow> taps \<times> real list" where
  "filter_loop f fb t [] = (t, [])"
| "filter_loop f fb t (x # xs) =
     (let t = ladder_tick f fb t x;
          (t', out) = filter_loop f fb t xs
      in (t', snd (snd (snd (snd t))) # out))"

text \<open>
  \<open>moog_filter_process\<close> filters the buffer in place and stores the taps back into
  \<open>prev[0..4]\<close>; the result is the new buffer and the new \<open>prev\<close>.
\<close>

definition moog_filter_process ::
  "real list \<Rightarrow> (nat \<Rightarrow> real) \<Rightarrow> real \<Rightarrow> real \<Rightarrow> real \<Rightarrow> real list \<times> (nat \<Rightarrow> real)" where
  "moog_filter_process output prev cutoff_hz resonance sr =
     (let (f, fb) = ladder_coeffs cutoff_hz resonance sr;
          ((b0, b1, b2, b3, b4), out) =
             filter_loop f fb (prev 0, prev 1, prev 2, prev 3, prev 4) output
      in (out, prev (0 := b0, 1 := b1, 2 := b2, 3 := b3, 4 := b4)))"

subsection \<open>Envelope generator\<close>

text \<open>
  \<open>envelope_process\<close> writes through the pointers \<open>state\<close>, \<open>level\<close> and
  \<open>env_counter\<close> and only reads the two anchor levels; the result is the new
  \<open>(state, level, env_counter)\<close>, and the C return value is the new level.
\<close>

definition envelope_process ::
  "moog_env_state_t \<Rightarrow> real \<Rightarrow> real \<Rightarrow> real \<Rightarrow> real \<Rightarrow>
   real \<Rightarrow> real \<Rightarrow> real \<Rightarrow> real \<Rightarrow> real \<Rightarrow> moog_env_state_t \<times> real \<times> real" where
  "envelope_process state level attack_level release_level env_counter
                    attack decay sustain release sr =
     (let atk_time = param_to_time attack sr;
          dec_time = param_to_time decay sr;
          rel_time = param_to_time release sr
      in case state of
           ENV_ATTACK \<Rightarrow>
             (let progress = env_counter / atk_time
              in if progress \<ge> 1.0 then (ENV_DECAY, 1.0, 0 + 1)
                 else (let start = attack_level; p = progress * progress
                       in (ENV_ATTACK, start + (1.0 - start) * p, env_counter + 1)))
         | ENV_DECAY \<Rightarrow>
             (let progress = env_counter / dec_time
              in if progress \<ge> 1.0 then (ENV_SUSTAIN, sustain, 0 + 1)
                 else (let p = 1.0 - progress
                       in (ENV_DECAY, sustain + (1.0 - sustain) * p * p, env_counter + 1)))
         | ENV_SUSTAIN \<Rightarrow> (ENV_SUSTAIN, sustain, env_counter)
         | ENV_RELEASE \<Rightarrow>
             (let progress = env_counter / rel_time
              in if progress \<ge> 1.0 then (ENV_OFF, 0.0, 0 + 1)
                 else (let p = 1.0 - progress
                       in (ENV_RELEASE, release_level * p * p, env_counter + 1)))
         | ENV_OFF \<Rightarrow> (ENV_OFF, 0.0, env_counter))"

subsection \<open>Audio rendering\<close>

text \<open>
  The effective period of oscillator slot \<open>osc\<close> (0 to 3) in the render loop: the range
  offset, then the fine detune of oscillators 2, 3 and 4, then the floor of 2 samples.
\<close>

definition osc_period :: "moog_engine_t \<Rightarrow> nat \<Rightarrow> real \<Rightarrow> real" where
  "osc_period engine osc current_period =
     (let osc_period = current_period;
          range = osc_range engine osc;
          osc_period = (if range \<noteq> 0 then osc_period * 2.0 powr (- real_of_int range)
                        else osc_period);
          osc_period =
            (if osc = 1 \<and> \<bar>osc2_detune engine\<bar> > 0.001
             then (let detune_cents = (osc2_detune engine - 0.5) * 100.0
                   in osc_period * 2.0 powr (- detune_cents / 1200.0))
             else osc_period);
          osc_period =
            (if osc = 2 \<and> \<bar>osc3_detune engine\<bar> > 0.001
             then (let detune_cents = (osc3_detune engine - 0.5) * 100.0
                   in osc_period * 2.0 powr (- detune_cents / 1200.0))
             else osc_period);
          osc_period =
            (if osc = 3 \<and> \<bar>osc4_detune engine - 0.5\<bar> > 0.001
             then (let detune_cents = (osc4_detune engine - 0.5) * 100.0
                   in osc_period * 2.0 powr (- detune_cents / 1200.0))
             else osc_period)
      in if osc_period < 2.0 then 2.0 else osc_period)"

text \<open>The loop \<open>for (osc = 0; osc < 4; osc++)\<close>, with its \<open>continue\<close> for silent slots.\<close>

definition osc_mix :: "moog_engine_t \<Rightarrow> real \<Rightarrow> real" where
  "osc_mix engine current_period =
     foldl (\<lambda>sample osc.
              if osc_volume engine osc < 0.001 then sample
              else (let osc_sample = generate_osc (osc_wave engine osc) (counter engine)
                                       (osc_period engine osc current_period)
                    in sample + osc_sample * osc_volume engine osc))
           0.0 [0, 1, 2, 3]"

text \<open>
  One pass of the sample loop of \<open>moog_engine_render\<close> is given in the order of the
  C text, one function per commented block.  Each takes the engine and returns it updated.
\<close>

text \<open>``Update glide'': slew the sounding period towards the glide target.\<close>

definition update_glide :: "real \<Rightarrow> moog_engine_t \<Rightarrow> moog_engine_t" where
  "update_glide glide_rate engine =
     (if \<bar>period engine - glide_period engine\<bar> > 0.01
      then engine \<lparr> period := period engine
                        + (glide_period engine - period engine) * glide_rate \<rparr>
      else engine)"

text \<open>``LFO'': advance and wrap the phase.\<close>

definition update_lfo :: "real \<Rightarrow> moog_engine_t \<Rightarrow> moog_engine_t" where
  "update_lfo lfo_inc engine =
     (let e = engine \<lparr> lfo_phase := lfo_phase engine + lfo_inc \<rparr>
      in if lfo_phase e \<ge> 1.0 then e \<lparr> lfo_phase := lfo_phase e - 1.0 \<rparr> else e)"

text \<open>
  ``Process envelopes'': the two calls of \<open>envelope_process\<close>.  The values \<open>amp_env\<close>
  and \<open>filt_env\<close> they return are the levels they have just stored.
\<close>

definition process_envelopes :: "moog_engine_t \<Rightarrow> moog_engine_t" where
  "process_envelopes engine =
     (let sr = sample_rate engine;
          (st, lv, cn) =
            envelope_process (amp_env_state engine) (amp_env_level engine)
              (amp_env_attack_level engine) (amp_env_release_level engine)
              (amp_env_counter engine)
              (amp_attack engine) (amp_decay engine) (amp_sustain engine)
              (amp_release engine) sr;
          e = engine \<lparr> amp_env_state := st, amp_env_level := lv, amp_env_counter := cn \<rparr>;
          (st, lv, cn) =
            envelope_process (filt_env_state e) (filt_env_level e)
              (filt_env_attack_level e) (filt_env_release_level e)
              (filt_env_counter e)
              (filt_attack e) (filt_decay e) (filt_sustain e) (filt_release e) sr
      in e \<lparr> filt_env_state := st, filt_env_level := lv, filt_env_counter := cn \<rparr>)"

text \<open>``Add noise'': steps the seed only when the noise is audible.\<close>

definition add_noise :: "moog_engine_t \<Rightarrow> real \<Rightarrow> moog_engine_t \<times> real" where
  "add_noise engine sample =
     (if noise_volume engine > 0.001
      then (let (seed, ns) = noise_sample (noise_seed engine)
            in (engine \<lparr> noise_seed := seed \<rparr>, sample + ns * noise_volume engine))
      else (engine, sample))"

text \<open>
  ``Per-sample filter processing'': the cutoff from its four sources, the coefficients,
  and the inline ladder update of \<open>filter_prev[0..4]\<close>.
\<close>

definition cutoff_normalized :: "moog_engine_t \<Rightarrow> real \<Rightarrow> real \<Rightarrow> real" where
  "cutoff_normalized engine filt_env lfo_val =
     (let base_cutoff = filter_cutoff engine;
          filt_env_mod = filt_env * filter_contour engine;
          key_track = (if current_note engine \<ge> 0
                       then real_of_int (current_note engine - 60) / 127.0
                              * filter_key_follow engine
                       else 0.0);
          lfo_filt = lfo_val * lfo_depth_filter engine * mod_to_filter engine * 0.3
      in clampf (base_cutoff + filt_env_mod + key_track + lfo_filt) 0.0 1.0)"

definition filter_sample :: "moog_engine_t \<Rightarrow> real \<Rightarrow> real \<Rightarrow> real \<Rightarrow> moog_engine_t" where
  "filter_sample engine sample filt_env lfo_val =
     (let cutoff_hz = 20.0 * 1000.0 powr (cutoff_normalized engine filt_env lfo_val);
          (f, fb) = ladder_coeffs cutoff_hz (filter_resonance engine) (sample_rate engine);
          (b0, b1, b2, b3, b4) =
            ladder_tick f fb (filter_prev engine 0, filter_prev engine 1, filter_prev engine 2,
                              filter_prev engine 3, filter_prev engine 4) sample
      in engine \<lparr> filter_prev :=
           (filter_prev engine) (1 := b1, 0 := b0, 2 := b2, 3 := b3, 4 := b4) \<rparr>)"

text \<open>
  The whole pass.  The three values computed before the loop are parameters; the result
  is the engine and the value stored in \<open>output[i]\<close>.
\<close>

definition render_sample ::
  "real \<Rightarrow> real \<Rightarrow> real \<Rightarrow> moog_engine_t \<Rightarrow> moog_engine_t \<times> real" where
  "render_sample bend_ratio glide_rate lfo_inc engine =
     (let e = update_glide glide_rate engine;
          current_period = period e / bend_ratio;
          e = update_lfo lfo_inc e;
          lfo_val = sin (lfo_phase e * 2.0 * pi);
          pitch_mod = lfo_val * lfo_depth_pitch e * mod_to_pitch e * mod_wheel e;
          current_period =
            (if \<bar>pitch_mod\<bar> > 0.0001
             then (let mod_ratio = 2.0 powr (pitch_mod * 2.0 / 12.0)
                   in current_period / mod_ratio)
             else current_period);
          e = process_envelopes e;
          amp_env = amp_env_level e;
          filt_env = filt_env_level e;
          vel_scale = 1.0 - velocity_sensitivity e + velocity_sensitivity e * velocity e;
          sample = osc_mix e current_period;
          (e, sample) = add_noise e sample;
          sample = sample * (amp_env * vel_scale);
          e = filter_sample e sample filt_env lfo_val;
          sample = filter_prev e 4;
          out = sample * master_volume e;
          e = e \<lparr> counter := counter e + 1.0 \<rparr>
      in (e, out))"

text \<open>
  The sample loop \<open>for (i = 0; i < frames; i++)\<close>, by the number of passes still to
  run; the second component lists the values written to \<open>output[0]\<close>, \<open>output[1]\<close>, ...
\<close>

fun render_loop ::
  "real \<Rightarrow> real \<Rightarrow> real \<Rightarrow> nat \<Rightarrow> moog_engine_t \<Rightarrow> moog_engine_t \<times> real list" where
  "render_loop bend_ratio glide_rate lfo_inc 0 engine = (engine, [])"
| "render_loop bend_ratio glide_rate lfo_inc (Suc n) engine =
     (let (e, x) = render_sample bend_ratio glide_rate lfo_inc engine;
          (e', out) = render_loop bend_ratio glide_rate lfo_inc n e
      in (e', x # out))"

text \<open>The three values \<open>moog_engine_render\<close> computes before its loop.\<close>

definition render_setup :: "moog_engine_t \<Rightarrow> int \<Rightarrow> real \<times> real \<times> real" where
  "render_setup engine frames =
     (let sr = sample_rate engine;
          bend_semitones = pitch_bend engine * bend_range engine * 12.0;
          bend_ratio = 2.0 powr (bend_semitones / 12.0);
          glide_rate =
            (if glide engine > 0.001
             then (let glide_time = glide engine * glide engine * 2.0 * sr
                   in 1.0 / (1.0 + glide_time / real_of_int frames))
             else 1.0);
          lfo_freq = 0.1 + lfo_rate engine * lfo_rate engine * 20.0;
          lfo_inc = lfo_freq / sr
      in (bend_ratio, glide_rate, lfo_inc))"

text \<open>A loop bounded by a negative \<open>frames\<close> does not run: \<open>nat frames\<close> passes.\<close>

definition moog_engine_render :: "moog_engine_t \<Rightarrow> int \<Rightarrow> moog_engine_t \<times> real list" where
  "moog_engine_render engine frames =
     (let (bend_ratio, glide_rate, lfo_inc) = render_setup engine frames
      in render_loop bend_ratio glide_rate lfo_inc (nat frames) engine)"

section \<open>The plugin adapter (moog\_plugin.cpp)\<close>

text \<open>The parameter indices \<open>P_OSC1_WAVE\<close> ... of the array \<open>params[P_COUNT]\<close>.\<close>

datatype param_index =
    P_OSC1_WAVE | P_OSC1_VOLUME | P_OSC1_RANGE
  | P_OSC2_WAVE | P_OSC2_VOLUME | P_OSC2_RANGE | P_OSC2_DETUNE
  | P_OSC3_WAVE | P_OSC3_VOLUME | P_OSC3_RANGE | P_OSC3_DETUNE
  | P_OSC4_WAVE | P_OSC4_VOLUME | P_OSC4_RANGE | P_OSC4_DETUNE
  | P_NOISE
  | P_FILTER_CUTOFF | P_FILTER_RESONANCE | P_FILTER_CONTOUR | P_FILTER_KEY_FOLLOW
  | P_AMP_ATTACK | P_AMP_DECAY | P_AMP_SUSTAIN | P_AMP_RELEASE
  | P_FILT_ATTACK | P_FILT_DECAY | P_FILT_SUSTAIN | P_FILT_RELEASE
  | P_GLIDE | P_MASTER_VOLUME
  | P_LFO_RATE | P_LFO_PITCH | P_LFO_FILTER
  | P_MOD_FILTER | P_MOD_PITCH | P_BEND_RANGE | P_VEL_SENS

text \<open>
  The cast \<open>(moog_wave_t)(int)x\<close>.  An integer outside 0..3 gives an enum value that
  \<open>generate_osc\<close> sends to its default branch, as it does \<open>WAVE_COUNT\<close>.
\<close>

definition wave_of_int :: "int \<Rightarrow> moog_wave_t" where
  "wave_of_int i =
     (if i = 0 then WAVE_TRIANGLE else if i = 1 then WAVE_SAWTOOTH
      else if i = 2 then WAVE_SQUARE else if i = 3 then WAVE_PULSE else WAVE_COUNT)"

text \<open>
  The instance, with the fields the functions below use (the preset table, the preset
  name and the module directory are left out).
\<close>

record moog_instance_t =
  engine :: moog_engine_t
  params :: "param_index \<Rightarrow> real"
  output_gain :: real
  inst_octave_transpose :: int

definition apply_params_to_engine :: "moog_instance_t \<Rightarrow> moog_instance_t" where
  "apply_params_to_engine inst =
     (let ps = params inst; e = engine inst
      in inst \<lparr> engine := e \<lparr>
           osc_wave := (osc_wave e)
             (0 := wave_of_int (c_trunc (ps P_OSC1_WAVE)),
              1 := wave_of_int (c_trunc (ps P_OSC2_WAVE)),
              2 := wave_of_int (c_trunc (ps P_OSC3_WAVE)),
              3 := wave_of_int (c_trunc (ps P_OSC4_WAVE))),
           osc_volume := (osc_volume e)
             (0 := ps P_OSC1_VOLUME, 1 := ps P_OSC2_VOLUME,
              2 := ps P_OSC3_VOLUME, 3 := ps P_OSC4_VOLUME),
           osc_range := (osc_range e)
             (0 := c_trunc (ps P_OSC1_RANGE), 1 := c_trunc (ps P_OSC2_RANGE),
              2 := c_trunc (ps P_OSC3_RANGE), 3 := c_trunc (ps P_OSC4_RANGE)),
           osc2_detune := ps P_OSC2_DETUNE,
           osc3_detune := ps P_OSC3_DETUNE,
           osc4_detune := ps P_OSC4_DETUNE,
           noise_volume := ps P_NOISE,
           filter_cutoff := ps P_FILTER_CUTOFF,
           filter_resonance := ps P_FILTER_RESONANCE,
           filter_contour := ps P_FILTER_CONTOUR,
           filter_key_follow := ps P_FILTER_KEY_FOLLOW,
           amp_attack := ps P_AMP_ATTACK,
           amp_decay := ps P_AMP_DECAY,
           amp_sustain := ps P_AMP_SUSTAIN,
           amp_release := ps P_AMP_RELEASE,
           filt_attack := ps P_FILT_ATTACK,
           filt_decay := ps P_FILT_DECAY,
           filt_sustain := ps P_FILT_SUSTAIN,
           filt_release := ps P_FILT_RELEASE,
           glide := ps P_GLIDE,
           master_volume := ps P_MASTER_VOLUME,
           lfo_rate := ps P_LFO_RATE,
           lfo_depth_pitch := ps P_LFO_PITCH,
           lfo_depth_filter := ps P_LFO_FILTER,
           mod_to_filter := ps P_MOD_FILTER,
           mod_to_pitch := ps P_MOD_PITCH,
           bend_range := ps P_BEND_RANGE,
           velocity_sensitivity := ps P_VEL_SENS \<rparr> \<rparr>)"

text \<open>
  The conversion of one mono sample to the 16-bit value stored in both channels:
  gain, \<open>tanhf\<close> soft clip beyond \<open>\<plusminus>0.9\<close>, scaling, the truncating cast and the clamp.
\<close>

definition to_int16 :: "real \<Rightarrow> real \<Rightarrow> int" where
  "to_int16 gain x =
     (let sample = x * gain;
          sample = (if sample > 0.9 \<or> sample < - 0.9 then tanh sample else sample);
          s = c_trunc (sample * 32767.0);
          s = (if s > 32767 then 32767 else s)
      in if s < - 32768 then - 32768 else s)"

text \<open>
  \<open>v2_render_block\<close>: the instance pointer may be null (\<open>None\<close>), and then the block
  is zeroed.  Otherwise at most 256 frames are rendered into the local mono buffer and
  converted.  The result is the instance, the samples the engine wrote to the mono
  buffer, and the interleaved left/right values written to the caller's buffer.
\<close>

definition v2_render_block ::
  "moog_instance_t option \<Rightarrow> int \<Rightarrow> moog_instance_t option \<times> real list \<times> int list" where
  "v2_render_block instance frames =
     (case instance of
        None \<Rightarrow> (None, [], replicate (nat (frames * 4) div 2) 0)
      | Some inst \<Rightarrow>
          (let frames = (if frames > 256 then 256 else frames);
               (e, mono_buf) = moog_engine_render (engine inst) frames;
               gain = output_gain inst;
               out = concat (map (\<lambda>x. [to_int16 gain x, to_int16 gain x])
                                 (take (nat frames) mono_buf))
           in (Some (inst \<lparr> engine := e \<rparr>), mono_buf, out)))"

section \<open>Event sequences\<close>

text \<open>
  The calls a host can make on an engine, and their effect in order.  \<open>ApplyParams\<close>
  is the adapter's \<open>apply_params_to_engine\<close> with the given parameter array.
\<close>

datatype event =
    NoteOn int real
  | NoteOff int
  | PitchBend real
  | ModWheel real
  | AllNotesOff
  | Reset
  | Render int
  | ApplyParams "param_index \<Rightarrow> real"

fun step :: "moog_engine_t \<Rightarrow> event \<Rightarrow> moog_engine_t" where
  "step e (NoteOn n v) = moog_engine_note_on e n v"
| "step e (NoteOff n) = moog_engine_note_off e n"
| "step e (PitchBend b) = moog_engine_pitch_bend e b"
| "step e (ModWheel a) = moog_engine_mod_wheel e a"
| "step e AllNotesOff = moog_engine_all_notes_off e"
| "step e Reset = moog_engine_reset e"
| "step e (Render frames) = fst (moog_engine_render e frames)"
| "step e (ApplyParams ps) =
     engine (apply_params_to_engine
       \<lparr> engine = e, params = ps, output_gain = 0.35, inst_octave_transpose = 0 \<rparr>)"

definition run :: "moog_engine_t \<Rightarrow> event list \<Rightarrow> moog_engine_t" where
  "run e evs = foldl step e evs"

section \<open>Notions used in the statements\<close>

text \<open>
  The value both note handlers compute in their local \<open>target_period\<close> for a note:
  octave transpose, clamp to 0..127, frequency, period.
\<close>

definition target_period :: "moog_engine_t \<Rightarrow> int \<Rightarrow> real" where
  "target_period e n =
     (let effective_note = n + octave_transpose e * 12;
          effective_note = (if effective_note < 0 then 0 else effective_note);
          effective_note = (if effective_note > 127 then 127 else effective_note)
      in hz_to_period (note_to_hz effective_note) (sample_rate e))"

text \<open>
  An event sequence in which no key is pressed while it is already on the key stack.
\<close>

fun fresh_presses :: "moog_engine_t \<Rightarrow> event list \<Rightarrow> bool" where
  "fresh_presses e [] = True"
| "fresh_presses e (ev # evs) =
     ((case ev of NoteOn n v \<Rightarrow> n \<notin> set (held e) | _ \<Rightarrow> True) \<and> fresh_presses (step e ev) evs)"

text \<open>
  Engines used as concrete inputs: an initialised engine on which the sixteen keys 0 to
  15 have been pressed; a record with the same full key stack but the gate off, which no
  event sequence produces; an initialised engine with the glide parameter at one half,
  and the same with key 60 held.
\<close>

definition sixteen_held :: moog_engine_t where
  "sixteen_held = run moog_engine_init
     [NoteOn 0 1, NoteOn 1 1, NoteOn 2 1, NoteOn 3 1, NoteOn 4 1, NoteOn 5 1, NoteOn 6 1,
      NoteOn 7 1, NoteOn 8 1, NoteOn 9 1, NoteOn 10 1, NoteOn 11 1, NoteOn 12 1,
      NoteOn 13 1, NoteOn 14 1, NoteOn 15 1]"

definition full_stack_engine :: moog_engine_t where
  "full_stack_engine = moog_engine_init \<lparr> key_stack := (\<lambda>i. int i), key_stack_count := 16 \<rparr>"

definition glide_engine :: moog_engine_t where
  "glide_engine = moog_engine_init \<lparr> glide := 0.5 \<rparr>"

definition glide_engine_held :: moog_engine_t where
  "glide_engine_held = moog_engine_note_on glide_engine 60 1"

text \<open>
  The oscillator period as the specification words it: base period times
  \<open>2^(-rangeOffset)\<close> times \<open>2^(-detuneCents/1200)\<close>, with
  \<open>detuneCents = (detune - 0.5) * 100\<close> for oscillators 2 to 4 (slots 1 to 3) and no
  detune for oscillator 1, floored at 2 samples.
\<close>

definition spec_detune_cents :: "moog_engine_t \<Rightarrow> nat \<Rightarrow> real" where
  "spec_detune_cents e osc =
     (if osc = 1 then (osc2_detune e - 0.5) * 100
      else if osc = 2 then (osc3_detune e - 0.5) * 100
      else if osc = 3 then (osc4_detune e - 0.5) * 100
      else 0)"

definition spec_osc_period :: "moog_engine_t \<Rightarrow> nat \<Rightarrow> real \<Rightarrow> real" where
  "spec_osc_period e osc base_period =
     max 2 (base_period * 2 powr (- real_of_int (osc_range e osc))
                        * 2 powr (- spec_detune_cents e osc / 1200.0))"

text \<open>The guards under which the render loop applies the detune factor to a slot.\<close>

definition detune_applied :: "moog_engine_t \<Rightarrow> nat \<Rightarrow> bool" where
  "detune_applied e osc =
     (osc = 1 \<and> \<bar>osc2_detune e\<bar> > 0.001
      \<or> osc = 2 \<and> \<bar>osc3_detune e\<bar> > 0.001
      \<or> osc = 3 \<and> \<bar>osc4_detune e - 0.5\<bar> > 0.001)"

text \<open>
  Three more engines used as concrete inputs, each with the oscillator in question
  audible (volume one half): oscillator 2 with its detune at 0, as
  \<open>moog_engine_init\<close> leaves it; oscillator 4 detuned by 0.0005 from the centre; and
  oscillator 2 one octave down with detune 0.48 (as in the first factory preset).
\<close>

definition undetuned_engine :: moog_engine_t where
  "undetuned_engine =
     moog_engine_init \<lparr> osc_volume := (osc_volume moog_engine_init) (1 := 0.5) \<rparr>"

definition deadband_engine :: moog_engine_t where
  "deadband_engine =
     moog_engine_init \<lparr> osc_volume := (osc_volume moog_engine_init) (3 := 0.5),
                        osc4_detune := 0.5005 \<rparr>"

definition detuned_engine :: moog_engine_t where
  "detuned_engine =
     moog_engine_init \<lparr> osc_volume := (osc_volume moog_engine_init) (1 := 0.5),
                        osc_range := (osc_range moog_engine_init) (1 := - 1),
                        osc2_detune := 0.48 \<rparr>"

text \<open>
  An envelope is in order when its level is in \<open>[0, 1]\<close> and is 0 in state Off; the
  engine's two envelopes are in order when both are.
\<close>

definition env_ok :: "moog_env_state_t \<Rightarrow> real \<Rightarrow> bool" where
  "env_ok st lv = (0 \<le> lv \<and> lv \<le> 1 \<and> (st = ENV_OFF \<longrightarrow> lv = 0))"

definition envelopes_ok :: "moog_engine_t \<Rightarrow> bool" where
  "envelopes_ok e =
     (env_ok (amp_env_state e) (amp_env_level e) \<and> env_ok (filt_env_state e) (filt_env_level e))"

text \<open>
  What a run of events keeps true besides: the anchor levels are in \<open>[0, 1]\<close>, the
  counters are not negative, both sustain parameters are in \<open>[0, 1]\<close>, and the sample
  rate is positive.
\<close>

definition env_inv :: "moog_engine_t \<Rightarrow> bool" where
  "env_inv e =
     (envelopes_ok e
      \<and> 0 \<le> amp_env_attack_level e \<and> amp_env_attack_level e \<le> 1
      \<and> 0 \<le> amp_env_release_level e \<and> amp_env_release_level e \<le> 1
      \<and> 0 \<le> filt_env_attack_level e \<and> filt_env_attack_level e \<le> 1
      \<and> 0 \<le> filt_env_release_level e \<and> filt_env_release_level e \<le> 1
      \<and> 0 \<le> amp_env_counter e \<and> 0 \<le> filt_env_counter e
      \<and> 0 \<le> amp_sustain e \<and> amp_sustain e \<le> 1
      \<and> 0 \<le> filt_sustain e \<and> filt_sustain e \<le> 1
      \<and> 0 < sample_rate e)"

text \<open>
  A parameter array whose eight envelope parameters are in \<open>[0, 1]\<close>, and an event
  sequence in which every parameter write is such an array.
\<close>

definition env_params_ok :: "(param_index \<Rightarrow> real) \<Rightarrow> bool" where
  "env_params_ok ps =
     list_all (\<lambda>k. 0 \<le> ps k \<and> ps k \<le> 1)
       [P_AMP_ATTACK, P_AMP_DECAY, P_AMP_SUSTAIN, P_AMP_RELEASE,
        P_FILT_ATTACK, P_FILT_DECAY, P_FILT_SUSTAIN, P_FILT_RELEASE]"

fun params_in_range :: "event list \<Rightarrow> bool" where
  "params_in_range [] = True"
| "params_in_range (ApplyParams ps # evs) = (env_params_ok ps \<and> params_in_range evs)"
| "params_in_range (ev # evs) = params_in_range evs"

text \<open>An event sequence used as a concrete input: a parameter write with every
  parameter at one half, a note held over a block, released, a second block, all notes off.\<close>

definition example_events :: "event list" where
  "example_events =
     [ApplyParams (\<lambda>_. 1/2), NoteOn 60 1, Render 128, NoteOff 60, Render 128, AllNotesOff]"

text \<open>
  The filter as the render loop drives it: for each sample the coefficients are computed
  afresh from that sample's normalised cutoff, then the taps are updated.  The list holds
  the pairs (normalised cutoff, input sample).
\<close>

fun filter_run :: "real \<Rightarrow> real \<Rightarrow> taps \<Rightarrow> (real \<times> real) list \<Rightarrow> taps" where
  "filter_run resonance sr t [] = t"
| "filter_run resonance sr t ((c, x) # cxs) =
     (let cutoff_hz = 20.0 * 1000.0 powr c;
          (f, fb) = ladder_coeffs cutoff_hz resonance sr
      in filter_run resonance sr (ladder_tick f fb t x) cxs)"

text \<open>The five taps of an engine, \<open>filter_prev[0..4]\<close>.\<close>

definition taps_of :: "moog_engine_t \<Rightarrow> taps" where
  "taps_of e = (filter_prev e 0, filter_prev e 1, filter_prev e 2, filter_prev e 3, filter_prev e 4)"

text \<open>All five taps within \<open>\<plusminus>4\<close>.\<close>

definition taps_bounded :: "taps \<Rightarrow> bool" where
  "taps_bounded t =
     (case t of (b0, b1, b2, b3, b4) \<Rightarrow>
        \<bar>b0\<bar> \<le> 4 \<and> \<bar>b1\<bar> \<le> 4 \<and> \<bar>b2\<bar> \<le> 4 \<and> \<bar>b3\<bar> \<le> 4 \<and> \<bar>b4\<bar> \<le> 4)"

text \<open>
  The bounds on the taps that one filter update keeps when the input stays within
  \<open>\<plusminus>5\<close> and the coefficient \<open>f\<close> stays the same: with
  \<open>K = 0.35013 * (5 + 4) = 3.15117\<close>, tap \<open>i\<close> is within
  \<open>1.3^i * K * f^(4-i)\<close> for \<open>i = 0..3\<close>, and tap 4 within 4.
\<close>

definition taps_inv :: "real \<Rightarrow> taps \<Rightarrow> bool" where
  "taps_inv f t =
     (case t of (b0, b1, b2, b3, b4) \<Rightarrow>
        \<bar>b0\<bar> \<le> 3.15117 * (f * f * f * f)
      \<and> \<bar>b1\<bar> \<le> 1.3 * 3.15117 * (f * f * f)
      \<and> \<bar>b2\<bar> \<le> 1.69 * 3.15117 * (f * f)
      \<and> \<bar>b3\<bar> \<le> 2.197 * 3.15117 * f
      \<and> \<bar>b4\<bar> \<le> 4)"

text \<open>Lower bounds on the first four taps, with tap 4 within \<open>\<plusminus>4\<close>.\<close>

definition taps_above :: "real \<Rightarrow> real \<Rightarrow> real \<Rightarrow> real \<Rightarrow> taps \<Rightarrow> bool" where
  "taps_above l0 l1 l2 l3 t =
     (case t of (b0, b1, b2, b3, b4) \<Rightarrow>
        l0 \<le> b0 \<and> l1 \<le> b1 \<and> l2 \<le> b2 \<and> l3 \<le> b3 \<and> \<bar>b4\<bar> \<le> 4)"

text \<open>
  A unit step through the filter while the normalised cutoff drops from 1 to 0 after the
  first sample: twelve (cutoff, input) pairs.
\<close>

definition sweep_input :: "(real \<times> real) list" where
  "sweep_input =
     [(1, 1), (0, 1), (0, 1), (0, 1), (0, 1), (0, 1),
      (0, 1), (0, 1), (0, 1), (0, 1), (0, 1), (0, 1)]"

section \<open>The key stack\<close>

subsection \<open>Removal as a list operation\<close>

lemma upt_split_at:
  assumes "a < b"
  shows "[0 ..< b] = [0 ..< a] @ a # [Suc a ..< b]"
proof -
  have "[0 ..< a + (b - a)] = [0 ..< a] @ [a ..< a + (b - a)]"
    by (rule upt_add_eq_append) simp
  moreover have "a + (b - a) = b" using assms by simp
  moreover have "[a ..< b] = a # [Suc a ..< b]" using assms by (rule upt_conv_Cons)
  ultimately show ?thesis by simp
qed

lemma shift_down_apply:
  "0 \<le> j \<Longrightarrow> shift_down ks cnt j k = (if nat j \<le> k \<and> int k < cnt - 1 then ks (Suc k) else ks k)"
proof (induction ks cnt j rule: shift_down.induct)
  case (1 ks cnt j)
  show ?case
  proof (cases "j < cnt - 1")
    case True
    define f where "f = ks (nat j := ks (nat (j + 1)))"
    have step: "shift_down ks cnt j k = shift_down f cnt (j + 1) k"
      using True unfolding f_def by (subst shift_down.simps) simp
    have "0 \<le> j + 1" using 1(2) by simp
    from 1(1) [OF True this]
    have ih: "shift_down f cnt (j + 1) k =
        (if nat (j + 1) \<le> k \<and> int k < cnt - 1 then f (Suc k) else f k)"
      unfolding f_def .
    have n: "nat (j + 1) = Suc (nat j)" using 1(2) by (simp add: nat_add_distrib)
    have f: "f m = (if m = nat j then ks (Suc (nat j)) else ks m)" for m
      by (simp add: f_def n)
    show ?thesis using True 1(2) by (auto simp: step ih n f)
  next
    case False
    then show ?thesis using 1(2) by (subst shift_down.simps) auto
  qed
qed

lemma held_shift_down:
  assumes "0 \<le> i" "i < cnt"
  shows "map (shift_down ks cnt i) [0 ..< nat (cnt - 1)] =
         map ks [0 ..< nat i] @ map ks [Suc (nat i) ..< nat cnt]"
proof (rule nth_equalityI)
  show "length (map (shift_down ks cnt i) [0 ..< nat (cnt - 1)]) =
        length (map ks [0 ..< nat i] @ map ks [Suc (nat i) ..< nat cnt])"
    using assms by auto
next
  fix k assume "k < length (map (shift_down ks cnt i) [0 ..< nat (cnt - 1)])"
  then have k: "k < nat (cnt - 1)" by simp
  then have k': "int k < cnt - 1" by linarith
  show "map (shift_down ks cnt i) [0 ..< nat (cnt - 1)] ! k =
        (map ks [0 ..< nat i] @ map ks [Suc (nat i) ..< nat cnt]) ! k"
    using assms k k' by (auto simp: shift_down_apply nth_append)
qed

lemma remove_key_held:
  assumes "0 \<le> i" "n \<notin> ks ` {0 ..< nat i}"
  shows "(case remove_key ks cnt n i of (ks', cnt') \<Rightarrow> map ks' [0 ..< nat cnt']) =
         remove1 n (map ks [0 ..< nat cnt])"
  using assms
proof (induction ks cnt n i rule: remove_key.induct)
  case (1 ks cnt n i)
  show ?case
  proof (cases "i < cnt")
    case False
    then have "nat cnt \<le> nat i" by simp
    then have "n \<notin> set (map ks [0 ..< nat cnt])" using 1(3) by auto
    then show ?thesis using False by (subst remove_key.simps) (simp add: remove1_idem)
  next
    case True
    show ?thesis
    proof (cases "ks (nat i) = n")
      case hit: True
      have "nat i < nat cnt" using True 1(2) by simp
      then have split: "[0 ..< nat cnt] = [0 ..< nat i] @ nat i # [Suc (nat i) ..< nat cnt]"
        by (rule upt_split_at)
      have "n \<notin> set (map ks [0 ..< nat i])" using 1(3) by auto
      then show ?thesis using True hit 1(2)
        by (subst remove_key.simps) (simp add: held_shift_down split remove1_append)
    next
      case miss: False
      have "n \<notin> ks ` {0 ..< nat (i + 1)}"
      proof -
        have "{0 ..< nat (i + 1)} = insert (nat i) {0 ..< nat i}"
          using 1(2) by (auto simp: nat_add_distrib)
        then show ?thesis using miss 1(3) by auto
      qed
      moreover have "0 \<le> i + 1" using 1(2) by simp
      ultimately show ?thesis using True miss 1(1) by (subst remove_key.simps) simp
    qed
  qed
qed


lemma held_note_on:
  assumes "0 \<le> key_stack_count e"
  shows "held (moog_engine_note_on e n v) =
         (if key_stack_count e < 16 then held e @ [n] else held e)"
  using assms
  by (auto simp: moog_engine_note_on_def Let_def MOOG_MAX_KEYS_def held_def nat_add_distrib)

lemma count_note_on:
  "key_stack_count (moog_engine_note_on e n v) =
     (if key_stack_count e < 16 then key_stack_count e + 1 else key_stack_count e)"
  by (simp add: moog_engine_note_on_def Let_def MOOG_MAX_KEYS_def)

lemma remove_key_count:
  "0 \<le> i \<Longrightarrow> 0 \<le> cnt \<Longrightarrow> 0 \<le> snd (remove_key ks cnt n i) \<and> snd (remove_key ks cnt n i) \<le> cnt"
proof (induction ks cnt n i rule: remove_key.induct)
  case (1 ks cnt n i)
  show ?case
  proof (cases "i < cnt \<and> ks (nat i) \<noteq> n")
    case True
    then have "remove_key ks cnt n i = remove_key ks cnt n (i + 1)"
      by (subst remove_key.simps) simp
    moreover have "0 \<le> snd (remove_key ks cnt n (i + 1)) \<and> snd (remove_key ks cnt n (i + 1)) \<le> cnt"
      using 1 True by simp
    ultimately show ?thesis by simp
  next
    case False
    then show ?thesis using 1(2,3) by (subst (1 2) remove_key.simps) auto
  qed
qed

lemma key_stack_note_off:
  "key_stack (moog_engine_note_off e n) = fst (remove_key (key_stack e) (key_stack_count e) n 0)"
  "key_stack_count (moog_engine_note_off e n) = snd (remove_key (key_stack e) (key_stack_count e) n 0)"
  by (simp_all add: moog_engine_note_off_def Let_def split: prod.splits)

lemma held_note_off: "held (moog_engine_note_off e n) = remove1 n (held e)"
  using remove_key_held [of 0 n "key_stack e" "key_stack_count e"]
  by (simp add: held_def key_stack_note_off split: prod.splits)


section \<open>What a render pass leaves alone\<close>

text \<open>
  The blocks of the sample loop write the period, the LFO phase, the noise seed, the
  filter taps and the counter; only \<open>process_envelopes\<close> writes envelope fields, and
  nothing in the loop writes the key stack, the sample rate or a parameter.
\<close>

lemma update_glide_keeps:
  "key_stack (update_glide gr e) = key_stack e"
  "key_stack_count (update_glide gr e) = key_stack_count e"
  "sample_rate (update_glide gr e) = sample_rate e"
  "amp_sustain (update_glide gr e) = amp_sustain e"
  "filt_sustain (update_glide gr e) = filt_sustain e"
  "amp_env_state (update_glide gr e) = amp_env_state e"
  "amp_env_level (update_glide gr e) = amp_env_level e"
  "amp_env_attack_level (update_glide gr e) = amp_env_attack_level e"
  "amp_env_release_level (update_glide gr e) = amp_env_release_level e"
  "amp_env_counter (update_glide gr e) = amp_env_counter e"
  "filt_env_state (update_glide gr e) = filt_env_state e"
  "filt_env_level (update_glide gr e) = filt_env_level e"
  "filt_env_attack_level (update_glide gr e) = filt_env_attack_level e"
  "filt_env_release_level (update_glide gr e) = filt_env_release_level e"
  "filt_env_counter (update_glide gr e) = filt_env_counter e"
  by (simp_all add: update_glide_def)

lemma update_lfo_keeps:
  "key_stack (update_lfo li e) = key_stack e"
  "key_stack_count (update_lfo li e) = key_stack_count e"
  "sample_rate (update_lfo li e) = sample_rate e"
  "amp_sustain (update_lfo li e) = amp_sustain e"
  "filt_sustain (update_lfo li e) = filt_sustain e"
  "amp_env_state (update_lfo li e) = amp_env_state e"
  "amp_env_level (update_lfo li e) = amp_env_level e"
  "amp_env_attack_level (update_lfo li e) = amp_env_attack_level e"
  "amp_env_release_level (update_lfo li e) = amp_env_release_level e"
  "amp_env_counter (update_lfo li e) = amp_env_counter e"
  "filt_env_state (update_lfo li e) = filt_env_state e"
  "filt_env_level (update_lfo li e) = filt_env_level e"
  "filt_env_attack_level (update_lfo li e) = filt_env_attack_level e"
  "filt_env_release_level (update_lfo li e) = filt_env_release_level e"
  "filt_env_counter (update_lfo li e) = filt_env_counter e"
  by (simp_all add: update_lfo_def Let_def)

lemma add_noise_keeps:
  "key_stack (fst (add_noise e x)) = key_stack e"
  "key_stack_count (fst (add_noise e x)) = key_stack_count e"
  "sample_rate (fst (add_noise e x)) = sample_rate e"
  "amp_sustain (fst (add_noise e x)) = amp_sustain e"
  "filt_sustain (fst (add_noise e x)) = filt_sustain e"
  "amp_env_state (fst (add_noise e x)) = amp_env_state e"
  "amp_env_level (fst (add_noise e x)) = amp_env_level e"
  "amp_env_attack_level (fst (add_noise e x)) = amp_env_attack_level e"
  "amp_env_release_level (fst (add_noise e x)) = amp_env_release_level e"
  "amp_env_counter (fst (add_noise e x)) = amp_env_counter e"
  "filt_env_state (fst (add_noise e x)) = filt_env_state e"
  "filt_env_level (fst (add_noise e x)) = filt_env_level e"
  "filt_env_attack_level (fst (add_noise e x)) = filt_env_attack_level e"
  "filt_env_release_level (fst (add_noise e x)) = filt_env_release_level e"
  "filt_env_counter (fst (add_noise e x)) = filt_env_counter e"
  by (simp_all add: add_noise_def case_prod_beta)

lemma filter_sample_keeps:
  "key_stack (filter_sample e x fe lv) = key_stack e"
  "key_stack_count (filter_sample e x fe lv) = key_stack_count e"
  "sample_rate (filter_sample e x fe lv) = sample_rate e"
  "amp_sustain (filter_sample e x fe lv) = amp_sustain e"
  "filt_sustain (filter_sample e x fe lv) = filt_sustain e"
  "amp_env_state (filter_sample e x fe lv) = amp_env_state e"
  "amp_env_level (filter_sample e x fe lv) = amp_env_level e"
  "amp_env_attack_level (filter_sample e x fe lv) = amp_env_attack_level e"
  "amp_env_release_level (filter_sample e x fe lv) = amp_env_release_level e"
  "amp_env_counter (filter_sample e x fe lv) = amp_env_counter e"
  "filt_env_state (filter_sample e x fe lv) = filt_env_state e"
  "filt_env_level (filter_sample e x fe lv) = filt_env_level e"
  "filt_env_attack_level (filter_sample e x fe lv) = filt_env_attack_level e"
  "filt_env_release_level (filter_sample e x fe lv) = filt_env_release_level e"
  "filt_env_counter (filter_sample e x fe lv) = filt_env_counter e"
  by (simp_all add: filter_sample_def Let_def case_prod_beta)

lemma process_envelopes_keeps:
  "key_stack (process_envelopes e) = key_stack e"
  "key_stack_count (process_envelopes e) = key_stack_count e"
  "sample_rate (process_envelopes e) = sample_rate e"
  "amp_sustain (process_envelopes e) = amp_sustain e"
  "filt_sustain (process_envelopes e) = filt_sustain e"
  "amp_env_attack_level (process_envelopes e) = amp_env_attack_level e"
  "amp_env_release_level (process_envelopes e) = amp_env_release_level e"
  "filt_env_attack_level (process_envelopes e) = filt_env_attack_level e"
  "filt_env_release_level (process_envelopes e) = filt_env_release_level e"
  by (simp_all add: process_envelopes_def Let_def case_prod_beta)


lemmas stage_keeps = update_glide_keeps update_lfo_keeps add_noise_keeps filter_sample_keeps
  process_envelopes_keeps

subsection \<open>The key stack under every event\<close>

lemma render_sample_keys:
  "key_stack (fst (render_sample br gr li e)) = key_stack e"
  "key_stack_count (fst (render_sample br gr li e)) = key_stack_count e"
  by (simp_all add: render_sample_def Let_def case_prod_beta stage_keeps)

lemma render_loop_keys:
  "key_stack (fst (render_loop br gr li k e)) = key_stack e \<and>
   key_stack_count (fst (render_loop br gr li k e)) = key_stack_count e"
proof (induction k arbitrary: e)
  case 0
  show ?case by simp
next
  case (Suc k)
  show ?case using Suc [of "fst (render_sample br gr li e)"]
    by (simp add: case_prod_beta Let_def render_sample_keys)
qed

lemma held_render: "held (fst (moog_engine_render e frames)) = held e"
  by (simp add: held_def moog_engine_render_def case_prod_beta render_loop_keys)

lemma count_render: "key_stack_count (fst (moog_engine_render e frames)) = key_stack_count e"
  by (simp add: moog_engine_render_def case_prod_beta render_loop_keys)

lemma count_note_off_bounds:
  "0 \<le> key_stack_count e \<Longrightarrow>
   0 \<le> key_stack_count (moog_engine_note_off e n) \<and>
   key_stack_count (moog_engine_note_off e n) \<le> key_stack_count e"
  using remove_key_count [of 0 "key_stack_count e" "key_stack e" n]
  by (simp add: key_stack_note_off)

lemma step_count:
  assumes "0 \<le> key_stack_count e" "key_stack_count e \<le> 16"
  shows "0 \<le> key_stack_count (step e ev) \<and> key_stack_count (step e ev) \<le> 16"
proof (cases ev)
  case (NoteOn n v)
  then show ?thesis using assms by (simp add: count_note_on)
next
  case (NoteOff n)
  then show ?thesis using assms count_note_off_bounds [of e n] by simp
next
  case (Render frames)
  then show ?thesis using assms by (simp add: count_render)
qed (use assms in \<open>simp_all add: moog_engine_pitch_bend_def moog_engine_mod_wheel_def
      moog_engine_all_notes_off_def moog_engine_reset_def apply_params_to_engine_def Let_def\<close>)

lemma step_held:
  assumes "0 \<le> key_stack_count e"
  shows "held (step e ev) =
    (case ev of
       NoteOn n v \<Rightarrow> (if key_stack_count e < 16 then held e @ [n] else held e)
     | NoteOff n \<Rightarrow> remove1 n (held e)
     | AllNotesOff \<Rightarrow> []
     | Reset \<Rightarrow> []
     | _ \<Rightarrow> held e)"
proof (cases ev)
  case (NoteOn n v)
  then show ?thesis using assms by (simp add: held_note_on)
next
  case (NoteOff n)
  then show ?thesis by (simp add: held_note_off)
next
  case (Render frames)
  then show ?thesis by (simp add: held_render)
qed (simp_all add: held_def moog_engine_pitch_bend_def moog_engine_mod_wheel_def
      moog_engine_all_notes_off_def moog_engine_reset_def apply_params_to_engine_def Let_def)

lemma step_distinct:
  assumes "0 \<le> key_stack_count e" "distinct (held e)" "fresh_presses e (ev # evs)"
  shows "distinct (held (step e ev))"
  unfolding step_held [OF assms(1), of ev]
  using assms(2,3) by (cases ev) auto

lemma run_distinct:
  assumes "0 \<le> key_stack_count e" "key_stack_count e \<le> 16" "distinct (held e)"
    and "fresh_presses e evs"
  shows "distinct (held (run e evs)) \<and> 0 \<le> key_stack_count (run e evs)
         \<and> key_stack_count (run e evs) \<le> 16"
  using assms
proof (induction evs arbitrary: e)
  case Nil
  then show ?case by (simp add: run_def)
next
  case (Cons ev evs)
  have c: "0 \<le> key_stack_count (step e ev) \<and> key_stack_count (step e ev) \<le> 16"
    using Cons.prems(1,2) by (rule step_count)
  have d: "distinct (held (step e ev))"
    using Cons.prems(1,3,4) by (rule step_distinct)
  have "fresh_presses (step e ev) evs" using Cons.prems(4) by simp
  with Cons.IH [of "step e ev"] c d show ?case by (simp add: run_def)
qed

lemma init_keys: "key_stack_count moog_engine_init = 0" "held moog_engine_init = []"
  by (simp_all add: moog_engine_init_def engine_zero_def Let_def held_def)


lemma current_note_note_off:
  assumes "0 < key_stack_count (moog_engine_note_off e n)"
  shows "current_note (moog_engine_note_off e n) = last (held (moog_engine_note_off e n))"
proof -
  obtain ks cnt where r: "remove_key (key_stack e) (key_stack_count e) n 0 = (ks, cnt)"
    by (cases "remove_key (key_stack e) (key_stack_count e) n 0")
  have c: "0 < cnt" using assms r by (simp add: key_stack_note_off)
  then have "last (map ks [0 ..< nat cnt]) = ks (nat (cnt - 1))"
    by (simp add: last_map nat_diff_distrib)
  then show ?thesis using c r
    by (simp add: held_def key_stack_note_off moog_engine_note_off_def Let_def)
qed

lemma count_note_off:
  assumes "0 \<le> key_stack_count e"
  shows "key_stack_count (moog_engine_note_off e n) = int (length (remove1 n (held e)))"
proof -
  have "0 \<le> key_stack_count (moog_engine_note_off e n)"
    using count_note_off_bounds [OF assms] by simp
  then have "key_stack_count (moog_engine_note_off e n)
      = int (length (held (moog_engine_note_off e n)))"
    by (simp add: held_def)
  then show ?thesis by (simp add: held_note_off)
qed

subsection \<open>Claims about the key stack\<close>

text \<open>
  C1 (amended).  From an initialised engine, along every sequence of events in which no
  key is pressed while it is on the key stack, the key stack holds each note at most once;
  and a note-off takes the first entry equal to the released note out of the stack and
  keeps the other entries in their order, so that afterwards the note is not on the stack.
\<close>

theorem key_stack_fresh_presses:
  assumes "fresh_presses moog_engine_init evs"
  shows "distinct (held (run moog_engine_init evs))
         \<and> held (moog_engine_note_off (run moog_engine_init evs) n)
             = remove1 n (held (run moog_engine_init evs))
         \<and> n \<notin> set (held (moog_engine_note_off (run moog_engine_init evs) n))"
proof -
  have d: "distinct (held (run moog_engine_init evs))"
    using run_distinct [of moog_engine_init evs] assms by (simp add: init_keys)
  then show ?thesis by (simp add: held_note_off)
qed

text \<open>
  Witness for C1: press 60, press 64, release 60, press 67 is such a sequence; the stack
  is then 64, 67, and releasing 64 leaves 67.
\<close>

theorem key_stack_fresh_presses_witness:
  "fresh_presses moog_engine_init [NoteOn 60 1, NoteOn 64 1, NoteOff 60, NoteOn 67 1]
   \<and> distinct (held (run moog_engine_init [NoteOn 60 1, NoteOn 64 1, NoteOff 60, NoteOn 67 1]))
   \<and> held (run moog_engine_init [NoteOn 60 1, NoteOn 64 1, NoteOff 60, NoteOn 67 1]) = [64, 67]
   \<and> held (moog_engine_note_off
        (run moog_engine_init [NoteOn 60 1, NoteOn 64 1, NoteOff 60, NoteOn 67 1]) 64) = [67]"
proof -
  have f: "fresh_presses moog_engine_init [NoteOn 60 1, NoteOn 64 1, NoteOff 60, NoteOn 67 1]"
    by (simp add: held_note_on held_note_off count_note_on init_keys count_note_off)
  have h: "held (run moog_engine_init [NoteOn 60 1, NoteOn 64 1, NoteOff 60, NoteOn 67 1]) = [64, 67]"
    by (simp add: run_def held_note_on held_note_off count_note_on init_keys count_note_off)
  show ?thesis using f h key_stack_fresh_presses [OF f, of 64] by simp
qed

text \<open>
  Counterexample to C1 as stated: \<open>moog_engine_note_on\<close> does not look for the note on
  the stack, so pressing key 60 twice stores it twice, and one release of 60 then leaves
  one entry 60 behind.
\<close>

theorem key_stack_duplicate_press:
  "held (run moog_engine_init [NoteOn 60 1, NoteOn 60 1]) = [60, 60]
   \<and> \<not> distinct (held (run moog_engine_init [NoteOn 60 1, NoteOn 60 1]))
   \<and> held (run moog_engine_init [NoteOn 60 1, NoteOn 60 1, NoteOff 60]) = [60]"
  by (simp add: run_def held_note_on held_note_off count_note_on init_keys)

text \<open>
  C5.  From an initialised engine, and from any engine after a reset, pressing 60, 64 and
  67 and then releasing 64 leaves the key stack 60, 67 and makes 67 the current note,
  whatever the velocities.
\<close>

theorem key_stack_scenario:
  "held (moog_engine_note_off (moog_engine_note_on (moog_engine_note_on
           (moog_engine_note_on moog_engine_init 60 v1) 64 v2) 67 v3) 64) = [60, 67]
   \<and> current_note (moog_engine_note_off (moog_engine_note_on (moog_engine_note_on
           (moog_engine_note_on moog_engine_init 60 v1) 64 v2) 67 v3) 64) = 67
   \<and> held (moog_engine_note_off (moog_engine_note_on (moog_engine_note_on
           (moog_engine_note_on (moog_engine_reset e) 60 v1) 64 v2) 67 v3) 64) = [60, 67]
   \<and> current_note (moog_engine_note_off (moog_engine_note_on (moog_engine_note_on
           (moog_engine_note_on (moog_engine_reset e) 60 v1) 64 v2) 67 v3) 64) = 67"
proof -
  have r: "key_stack_count (moog_engine_reset e) = 0" "held (moog_engine_reset e) = []"
    by (simp_all add: moog_engine_reset_def held_def)
  have scen: "held (moog_engine_note_off (moog_engine_note_on (moog_engine_note_on
           (moog_engine_note_on e0 60 v1) 64 v2) 67 v3) 64) = [60, 67]
    \<and> current_note (moog_engine_note_off (moog_engine_note_on (moog_engine_note_on
           (moog_engine_note_on e0 60 v1) 64 v2) 67 v3) 64) = 67"
    if "key_stack_count e0 = 0" "held e0 = []" for e0
  proof -
    let ?e3 = "moog_engine_note_on (moog_engine_note_on (moog_engine_note_on e0 60 v1) 64 v2) 67 v3"
    have h3: "held ?e3 = [60, 64, 67]" and c3: "key_stack_count ?e3 = 3"
      using that by (simp_all add: held_note_on count_note_on)
    have h4: "held (moog_engine_note_off ?e3 64) = [60, 67]"
      by (simp add: held_note_off h3)
    have "0 \<le> key_stack_count (moog_engine_note_off ?e3 64)"
      using count_note_off_bounds [of ?e3 64] c3 by simp
    moreover have "length (held (moog_engine_note_off ?e3 64)) = 2" by (simp add: h4)
    ultimately have "0 < key_stack_count (moog_engine_note_off ?e3 64)"
      by (simp add: held_def)
    from current_note_note_off [OF this] h4 show ?thesis by simp
  qed
  from scen [OF init_keys] scen [OF r] show ?thesis by simp
qed

subsection \<open>The gate and the key stack\<close>

text \<open>
  Along every run from a state where a closed gate means an empty key stack, a closed gate
  still means an empty key stack: a note-on opens the gate, and only a note-off that
  empties the stack, all-notes-off and reset close it.
\<close>

lemma gate_note_on:
  "gate_on (moog_engine_note_on e n v) = (if gate_on e \<noteq> 0 then gate_on e else 1)"
  by (simp add: moog_engine_note_on_def Let_def)

lemma gate_note_off:
  "gate_on (moog_engine_note_off e n)
     = (if 0 < key_stack_count (moog_engine_note_off e n) then gate_on e else 0)"
proof -
  obtain ks cnt where r: "remove_key (key_stack e) (key_stack_count e) n 0 = (ks, cnt)"
    by (cases "remove_key (key_stack e) (key_stack_count e) n 0")
  show ?thesis by (simp add: moog_engine_note_off_def Let_def r)
qed

lemma stage_gate:
  "gate_on (update_glide gr e) = gate_on e"
  "gate_on (update_lfo li e) = gate_on e"
  "gate_on (process_envelopes e) = gate_on e"
  "gate_on (fst (add_noise e x)) = gate_on e"
  "gate_on (filter_sample e x fe lv) = gate_on e"
  by (simp_all add: update_glide_def update_lfo_def process_envelopes_def add_noise_def
      filter_sample_def Let_def case_prod_beta)

lemma render_sample_gate: "gate_on (fst (render_sample br gr li e)) = gate_on e"
  by (simp add: render_sample_def Let_def case_prod_beta stage_gate)

lemma render_loop_gate: "gate_on (fst (render_loop br gr li k e)) = gate_on e"
proof (induction k arbitrary: e)
  case 0
  show ?case by simp
next
  case (Suc k)
  show ?case using Suc [of "fst (render_sample br gr li e)"]
    by (simp add: case_prod_beta Let_def render_sample_gate)
qed

lemma gate_render: "gate_on (fst (moog_engine_render e frames)) = gate_on e"
  by (simp add: moog_engine_render_def case_prod_beta render_loop_gate)

lemma step_gate_keys:
  assumes "0 \<le> key_stack_count e" "gate_on e = 0 \<longrightarrow> key_stack_count e = 0"
  shows "0 \<le> key_stack_count (step e ev)
         \<and> (gate_on (step e ev) = 0 \<longrightarrow> key_stack_count (step e ev) = 0)"
proof (cases ev)
  case (NoteOn n v)
  then show ?thesis using assms(1) by (simp add: count_note_on gate_note_on)
next
  case (NoteOff n)
  have b: "0 \<le> key_stack_count (moog_engine_note_off e n)"
    "key_stack_count (moog_engine_note_off e n) \<le> key_stack_count e"
    using count_note_off_bounds [OF assms(1), of n] by simp_all
  show ?thesis
  proof (cases "0 < key_stack_count (moog_engine_note_off e n)")
    case True
    then have "0 < key_stack_count e" using b(2) by simp
    then have "gate_on e \<noteq> 0" using assms(2) by auto
    then show ?thesis using NoteOff True b(1) by (simp add: gate_note_off)
  next
    case False
    then show ?thesis using NoteOff b(1) by (simp add: gate_note_off)
  qed
next
  case (Render frames)
  then show ?thesis using assms by (simp add: count_render gate_render)
qed (use assms in \<open>simp_all add: moog_engine_pitch_bend_def moog_engine_mod_wheel_def
      moog_engine_all_notes_off_def moog_engine_reset_def apply_params_to_engine_def Let_def\<close>)

lemma run_gate_keys:
  assumes "0 \<le> key_stack_count e" "gate_on e = 0 \<longrightarrow> key_stack_count e = 0"
  shows "gate_on (run e evs) = 0 \<longrightarrow> key_stack_count (run e evs) = 0"
proof -
  have "0 \<le> key_stack_count (run e evs)
        \<and> (gate_on (run e evs) = 0 \<longrightarrow> key_stack_count (run e evs) = 0)"
    using assms
  proof (induction evs arbitrary: e)
    case Nil
    then show ?case by (simp add: run_def)
  next
    case (Cons ev evs)
    from step_gate_keys [OF Cons.prems, of ev] Cons.IH [of "step e ev"]
    show ?case by (simp add: run_def)
  qed
  then show ?thesis by simp
qed

section \<open>The note handlers\<close>

subsection \<open>Note periods\<close>

lemma note_to_hz_ge: "0 \<le> n \<Longrightarrow> 8.1758 \<le> note_to_hz n"
proof -
  assume "0 \<le> n"
  then have "1 \<le> (1.0594630943593::real) powr real_of_int n"
    by (intro ge_one_powr_ge_zero) simp_all
  then show ?thesis by (simp add: note_to_hz_def)
qed

lemma note_to_hz_less: "m < n \<Longrightarrow> note_to_hz m < note_to_hz n"
  by (simp add: note_to_hz_def powr_less_mono)

lemma note_period_less:
  assumes "0 \<le> m" "m < n" "0 < sr"
  shows "hz_to_period (note_to_hz n) sr < hz_to_period (note_to_hz m) sr"
proof -
  have m: "8.1758 \<le> note_to_hz m" using assms(1) by (rule note_to_hz_ge)
  have n: "8.1758 \<le> note_to_hz n" using assms(1,2) by (intro note_to_hz_ge) simp
  have "sr / note_to_hz n < sr / note_to_hz m"
    using m note_to_hz_less [OF assms(2)] assms(3) by (intro divide_strict_left_mono) auto
  then show ?thesis using m n by (simp add: hz_to_period_def)
qed

subsection \<open>Facts about the example engines\<close>

lemma sixteen_held_facts:
  "key_stack_count sixteen_held = 16" "gate_on sixteen_held = 1"
  "held sixteen_held = [0, 1, 2, 3, 4, 5, 6, 7, 8, 9, 10, 11, 12, 13, 14, 15]"
  by (simp_all add: sixteen_held_def run_def held_note_on count_note_on gate_note_on init_keys)
     (simp add: moog_engine_init_def engine_zero_def Let_def)

lemma full_stack_engine_facts:
  "key_stack_count full_stack_engine = 16" "gate_on full_stack_engine = 0"
  "held full_stack_engine = map int [0 ..< 16]"
  by (simp_all add: full_stack_engine_def moog_engine_init_def engine_zero_def Let_def held_def)

lemma first_note_facts:
  "gate_on (moog_engine_note_on moog_engine_init 60 1) = 1"
  "key_stack_count (moog_engine_note_on moog_engine_init 60 1) = 1"
  "amp_env_state (moog_engine_note_on moog_engine_init 60 1) = ENV_ATTACK"
  "amp_env_counter (moog_engine_note_on moog_engine_init 60 1) = 0"
  by (simp_all add: moog_engine_note_on_def moog_engine_init_def engine_zero_def Let_def
      MOOG_MAX_KEYS_def)

lemma glide_engine_facts:
  "glide glide_engine = 1/2" "gate_on glide_engine = 0"
  "period glide_engine = hz_to_period (note_to_hz 60) 44100"
  "octave_transpose glide_engine = 0" "sample_rate glide_engine = 44100"
  "key_stack_count glide_engine = 0" "held glide_engine = []"
  by (simp_all add: glide_engine_def moog_engine_init_def engine_zero_def Let_def held_def
      MOOG_SAMPLE_RATE_def)

lemma glide_engine_held_facts:
  "glide glide_engine_held = 1/2" "gate_on glide_engine_held = 1"
  "key_stack_count glide_engine_held = 1" "held glide_engine_held = [60]"
  by (simp_all add: glide_engine_held_def glide_engine_facts held_note_on count_note_on)
     (simp_all add: moog_engine_note_on_def Let_def glide_engine_facts)

subsection \<open>Note-on with a full key stack\<close>

text \<open>
  C10 (amended).  When the key stack is full (count 16), \<open>moog_engine_note_on\<close> leaves
  the stack and its count as they are, and still sets the current note, the velocity and
  the glide target period; the sounding period is set too unless the gate is on with glide
  above 0.001; and if the gate is off, the gate is set and both envelopes enter the
  attack state with counter 0 from their current levels.  An engine reached from
  \<open>moog_engine_init\<close> by events has the gate on when its stack is full, so there the
  envelopes are left alone.  The press adds no entry: a later note-off for the note
  removes the first entry equal to it that the stack already held.  If there is none,
  nothing is removed and the count stays 16; if there is one, that earlier entry goes and
  the count drops to 15.
\<close>

theorem note_on_full_stack:
  assumes "key_stack_count e = 16"
  shows "key_stack (moog_engine_note_on e n v) = key_stack e
    \<and> key_stack_count (moog_engine_note_on e n v) = 16
    \<and> held (moog_engine_note_on e n v) = held e
    \<and> current_note (moog_engine_note_on e n v) = n
    \<and> velocity (moog_engine_note_on e n v) = v
    \<and> glide_period (moog_engine_note_on e n v) = target_period e n
    \<and> period (moog_engine_note_on e n v)
        = (if gate_on e \<noteq> 0 \<and> glide e > 0.001 then period e else target_period e n)
    \<and> (gate_on e = 0 \<longrightarrow>
          gate_on (moog_engine_note_on e n v) = 1
        \<and> amp_env_state (moog_engine_note_on e n v) = ENV_ATTACK
        \<and> amp_env_counter (moog_engine_note_on e n v) = 0
        \<and> amp_env_attack_level (moog_engine_note_on e n v) = amp_env_level e
        \<and> filt_env_state (moog_engine_note_on e n v) = ENV_ATTACK
        \<and> filt_env_counter (moog_engine_note_on e n v) = 0
        \<and> filt_env_attack_level (moog_engine_note_on e n v) = filt_env_level e)
    \<and> (e = run moog_engine_init evs \<longrightarrow> gate_on e \<noteq> 0)
    \<and> held (moog_engine_note_off (moog_engine_note_on e n v) n) = remove1 n (held e)
    \<and> (n \<notin> set (held e) \<longrightarrow>
          held (moog_engine_note_off (moog_engine_note_on e n v) n) = held e
        \<and> key_stack_count (moog_engine_note_off (moog_engine_note_on e n v) n) = 16)
    \<and> (n \<in> set (held e) \<longrightarrow>
          key_stack_count (moog_engine_note_off (moog_engine_note_on e n v) n) = 15)"
proof -
  let ?e = "moog_engine_note_on e n v"
  have ks: "key_stack ?e = key_stack e" and c: "key_stack_count ?e = 16"
    using assms by (simp_all add: moog_engine_note_on_def Let_def MOOG_MAX_KEYS_def)
  have h: "held ?e = held e" using assms by (simp add: held_def ks c)
  have f: "current_note ?e = n" "velocity ?e = v" "glide_period ?e = target_period e n"
    "period ?e = (if gate_on e \<noteq> 0 \<and> glide e > 0.001 then period e else target_period e n)"
    using assms
    by (simp_all add: moog_engine_note_on_def Let_def MOOG_MAX_KEYS_def target_period_def)
  have g: "gate_on e = 0 \<longrightarrow>
          gate_on ?e = 1
        \<and> amp_env_state ?e = ENV_ATTACK \<and> amp_env_counter ?e = 0
        \<and> amp_env_attack_level ?e = amp_env_level e
        \<and> filt_env_state ?e = ENV_ATTACK \<and> filt_env_counter ?e = 0
        \<and> filt_env_attack_level ?e = filt_env_level e"
    by (simp add: moog_engine_note_on_def Let_def)
  have u: "e = run moog_engine_init evs \<longrightarrow> gate_on e \<noteq> 0"
  proof
    assume r: "e = run moog_engine_init evs"
    have "gate_on (run moog_engine_init evs) = 0
        \<longrightarrow> key_stack_count (run moog_engine_init evs) = 0"
      by (rule run_gate_keys) (simp_all add: init_keys)
    then show "gate_on e \<noteq> 0" using assms r by auto
  qed
  have off: "held (moog_engine_note_off ?e n) = remove1 n (held e)"
    by (simp add: held_note_off h)
  have cnt: "key_stack_count (moog_engine_note_off ?e n) = int (length (remove1 n (held e)))"
    using count_note_off [of ?e n] by (simp add: c h)
  have len: "length (held e) = 16" using assms by (simp add: held_def)
  have o: "n \<notin> set (held e) \<longrightarrow>
          held (moog_engine_note_off ?e n) = held e
        \<and> key_stack_count (moog_engine_note_off ?e n) = 16"
    by (simp add: off cnt len remove1_idem)
  have i: "n \<in> set (held e) \<longrightarrow> key_stack_count (moog_engine_note_off ?e n) = 15"
    by (simp add: cnt len length_remove1)
  show ?thesis using ks c h f g u off o i by simp
qed

text \<open>
  Witness for C10: sixteen keys 0 to 15 held on an initialised engine (gate on); key 99,
  not held, is pressed and released, and key 5, held, is pressed and released.  For the
  gate-off case, the record with the same stack and the gate off.
\<close>

theorem note_on_full_stack_witness:
  "key_stack_count sixteen_held = 16
   \<and> sixteen_held = run moog_engine_init
        [NoteOn 0 1, NoteOn 1 1, NoteOn 2 1, NoteOn 3 1, NoteOn 4 1, NoteOn 5 1, NoteOn 6 1,
         NoteOn 7 1, NoteOn 8 1, NoteOn 9 1, NoteOn 10 1, NoteOn 11 1, NoteOn 12 1,
         NoteOn 13 1, NoteOn 14 1, NoteOn 15 1]
   \<and> gate_on sixteen_held \<noteq> 0
   \<and> 99 \<notin> set (held sixteen_held)
   \<and> key_stack_count (moog_engine_note_on sixteen_held 99 1) = 16
   \<and> held (moog_engine_note_on sixteen_held 99 1) = held sixteen_held
   \<and> current_note (moog_engine_note_on sixteen_held 99 1) = 99
   \<and> held (moog_engine_note_off (moog_engine_note_on sixteen_held 99 1) 99)
       = held sixteen_held
   \<and> key_stack_count (moog_engine_note_off (moog_engine_note_on sixteen_held 99 1) 99) = 16
   \<and> 5 \<in> set (held sixteen_held)
   \<and> key_stack_count (moog_engine_note_off (moog_engine_note_on sixteen_held 5 1) 5) = 15
   \<and> key_stack_count full_stack_engine = 16
   \<and> gate_on full_stack_engine = 0
   \<and> amp_env_state (moog_engine_note_on full_stack_engine 99 1) = ENV_ATTACK
   \<and> filt_env_state (moog_engine_note_on full_stack_engine 99 1) = ENV_ATTACK
   \<and> gate_on (moog_engine_note_on full_stack_engine 99 1) = 1"
proof -
  let ?evs = "[NoteOn 0 1, NoteOn 1 1, NoteOn 2 1, NoteOn 3 1, NoteOn 4 1, NoteOn 5 1,
         NoteOn 6 1, NoteOn 7 1, NoteOn 8 1, NoteOn 9 1, NoteOn 10 1, NoteOn 11 1,
         NoteOn 12 1, NoteOn 13 1, NoteOn 14 1, NoteOn 15 1]"
  have d: "sixteen_held = run moog_engine_init ?evs" by (simp only: sixteen_held_def)
  have n: "99 \<notin> set (held sixteen_held)" "5 \<in> set (held sixteen_held)"
    by (simp_all add: sixteen_held_facts)
  note c16 = sixteen_held_facts(1)
  note f16 = full_stack_engine_facts(1)
  note g0 = full_stack_engine_facts(2)
  note a = note_on_full_stack [OF c16, of 99 1 ?evs]
  note b = note_on_full_stack [OF c16, of 5 1 ?evs]
  note c = note_on_full_stack [OF f16, of 99 1 ?evs]
  have 1: "gate_on sixteen_held \<noteq> 0" using a d by blast
  have 2: "key_stack_count (moog_engine_note_on sixteen_held 99 1) = 16" using a by blast
  have 3: "held (moog_engine_note_on sixteen_held 99 1) = held sixteen_held" using a by blast
  have 4: "current_note (moog_engine_note_on sixteen_held 99 1) = 99" using a by blast
  have 5: "held (moog_engine_note_off (moog_engine_note_on sixteen_held 99 1) 99)
       = held sixteen_held
     \<and> key_stack_count (moog_engine_note_off (moog_engine_note_on sixteen_held 99 1) 99) = 16"
    using a n(1) by blast
  have 6: "key_stack_count (moog_engine_note_off (moog_engine_note_on sixteen_held 5 1) 5) = 15"
    using b n(2) by blast
  have 7: "amp_env_state (moog_engine_note_on full_stack_engine 99 1) = ENV_ATTACK
     \<and> filt_env_state (moog_engine_note_on full_stack_engine 99 1) = ENV_ATTACK
     \<and> gate_on (moog_engine_note_on full_stack_engine 99 1) = 1"
    using c g0 by blast
  show ?thesis using c16 d 1 n 2 3 4 5 6 f16 g0 7 by blast
qed

text \<open>
  Counterexample to C10 as stated (a later note-off for the note cannot be matched against
  the stack): with the keys 0 to 15 held, key 5 is pressed again and is not recorded;
  the note-off for 5 then matches the entry 5 of the first press and removes it, leaving
  fifteen entries.
\<close>

theorem note_on_full_stack_held_note:
  "key_stack_count sixteen_held = 16
   \<and> held sixteen_held = [0, 1, 2, 3, 4, 5, 6, 7, 8, 9, 10, 11, 12, 13, 14, 15]
   \<and> held (moog_engine_note_on sixteen_held 5 1) = held sixteen_held
   \<and> held (moog_engine_note_off (moog_engine_note_on sixteen_held 5 1) 5)
       = [0, 1, 2, 3, 4, 6, 7, 8, 9, 10, 11, 12, 13, 14, 15]
   \<and> key_stack_count (moog_engine_note_off (moog_engine_note_on sixteen_held 5 1) 5) = 15"
  by (simp add: sixteen_held_facts held_note_on held_note_off count_note_on count_note_off)

subsection \<open>Legato\<close>

text \<open>
  C4 (amended).  When the gate is already on, \<open>moog_engine_note_on\<close> changes nothing
  but the key stack and its count (the note is pushed when there is room), the glide
  target period, the sounding period (only when glide is at most 0.001), the current note
  and the velocity.  In particular the state, the counter, the level and both anchor
  levels of each envelope are unchanged: no retrigger.
\<close>

theorem legato_note_on:
  assumes "gate_on e \<noteq> 0"
  shows "moog_engine_note_on e n v =
      e \<lparr> key_stack := (if key_stack_count e < 16
                         then (key_stack e) (nat (key_stack_count e) := n) else key_stack e),
          key_stack_count := (if key_stack_count e < 16
                              then key_stack_count e + 1 else key_stack_count e),
          period := (if glide e > 0.001 then period e else target_period e n),
          glide_period := target_period e n,
          current_note := n,
          velocity := v \<rparr>
    \<and> amp_env_state (moog_engine_note_on e n v) = amp_env_state e
    \<and> amp_env_counter (moog_engine_note_on e n v) = amp_env_counter e
    \<and> amp_env_level (moog_engine_note_on e n v) = amp_env_level e
    \<and> amp_env_attack_level (moog_engine_note_on e n v) = amp_env_attack_level e
    \<and> amp_env_release_level (moog_engine_note_on e n v) = amp_env_release_level e
    \<and> filt_env_state (moog_engine_note_on e n v) = filt_env_state e
    \<and> filt_env_counter (moog_engine_note_on e n v) = filt_env_counter e
    \<and> filt_env_level (moog_engine_note_on e n v) = filt_env_level e
    \<and> filt_env_attack_level (moog_engine_note_on e n v) = filt_env_attack_level e
    \<and> filt_env_release_level (moog_engine_note_on e n v) = filt_env_release_level e
    \<and> gate_on (moog_engine_note_on e n v) = gate_on e"
  using assms
  by (simp add: moog_engine_note_on_def Let_def MOOG_MAX_KEYS_def target_period_def)

text \<open>
  Witness for C4: key 60 is held on an initialised engine, so the gate is on and the
  envelopes are in attack with counter 0; pressing 64 leaves them so.
\<close>

theorem legato_note_on_witness:
  "gate_on (moog_engine_note_on moog_engine_init 60 1) \<noteq> 0
   \<and> amp_env_state (moog_engine_note_on (moog_engine_note_on moog_engine_init 60 1) 64 (1/2))
       = ENV_ATTACK
   \<and> amp_env_counter (moog_engine_note_on (moog_engine_note_on moog_engine_init 60 1) 64 (1/2))
       = 0
   \<and> gate_on (moog_engine_note_on (moog_engine_note_on moog_engine_init 60 1) 64 (1/2)) = 1"
proof -
  have g: "gate_on (moog_engine_note_on moog_engine_init 60 1) \<noteq> 0"
    by (simp add: first_note_facts)
  show ?thesis using legato_note_on [OF g, of 64 "1/2"] by (simp add: first_note_facts)
qed

text \<open>
  Counterexample to C4 as stated (only the period, the current note and the velocity
  change): with key 60 held and the gate on, pressing 64 also changes the key stack, from
  one entry to two.
\<close>

theorem legato_note_on_pushes_key:
  "gate_on (moog_engine_note_on moog_engine_init 60 1) \<noteq> 0
   \<and> key_stack_count (moog_engine_note_on (moog_engine_note_on moog_engine_init 60 1) 64 1)
       \<noteq> key_stack_count (moog_engine_note_on moog_engine_init 60 1)
   \<and> held (moog_engine_note_on moog_engine_init 60 1) = [60]
   \<and> held (moog_engine_note_on (moog_engine_note_on moog_engine_init 60 1) 64 1) = [60, 64]"
  by (simp add: first_note_facts count_note_on held_note_on init_keys)

subsection \<open>Glide\<close>

text \<open>
  C7 (amended).  A note-on sets only the glide target, and leaves the sounding period,
  when the gate is on and glide exceeds 0.001; otherwise (gate off, or glide at most
  0.001) it sets both periods to the new target.  A note-off that leaves a note on the
  stack re-targets to the top of the stack: only the glide target when glide exceeds
  0.001, both periods otherwise.  A note-off that empties the stack changes neither.
\<close>

theorem glide_retarget:
  "(gate_on e \<noteq> 0 \<and> glide e > 0.001 \<longrightarrow>
       period (moog_engine_note_on e n v) = period e
     \<and> glide_period (moog_engine_note_on e n v) = target_period e n)
   \<and> (\<not> (gate_on e \<noteq> 0 \<and> glide e > 0.001) \<longrightarrow>
       period (moog_engine_note_on e n v) = target_period e n
     \<and> glide_period (moog_engine_note_on e n v) = target_period e n)
   \<and> (0 < key_stack_count (moog_engine_note_off e n) \<and> glide e > 0.001 \<longrightarrow>
       period (moog_engine_note_off e n) = period e
     \<and> glide_period (moog_engine_note_off e n)
         = target_period e (last (held (moog_engine_note_off e n))))
   \<and> (0 < key_stack_count (moog_engine_note_off e n) \<and> \<not> glide e > 0.001 \<longrightarrow>
       period (moog_engine_note_off e n)
         = target_period e (last (held (moog_engine_note_off e n)))
     \<and> glide_period (moog_engine_note_off e n)
         = target_period e (last (held (moog_engine_note_off e n))))
   \<and> (\<not> 0 < key_stack_count (moog_engine_note_off e n) \<longrightarrow>
       period (moog_engine_note_off e n) = period e
     \<and> glide_period (moog_engine_note_off e n) = glide_period e)"
proof -
  have on: "period (moog_engine_note_on e n v)
        = (if gate_on e \<noteq> 0 \<and> glide e > 0.001 then period e else target_period e n)"
      "glide_period (moog_engine_note_on e n v) = target_period e n"
    by (simp_all add: moog_engine_note_on_def Let_def target_period_def)
  obtain ks cnt where r: "remove_key (key_stack e) (key_stack_count e) n 0 = (ks, cnt)"
    by (cases "remove_key (key_stack e) (key_stack_count e) n 0")
  have c: "key_stack_count (moog_engine_note_off e n) = cnt"
    by (simp add: key_stack_note_off r)
  have top: "last (held (moog_engine_note_off e n)) = ks (nat (cnt - 1))" if "0 < cnt"
    using that by (simp add: held_def key_stack_note_off r last_map nat_diff_distrib)
  have off1: "period (moog_engine_note_off e n)
        = (if glide e > 0.001 then period e else target_period e (ks (nat (cnt - 1))))"
      "glide_period (moog_engine_note_off e n) = target_period e (ks (nat (cnt - 1)))"
    if "0 < cnt"
    using that by (simp_all add: moog_engine_note_off_def Let_def target_period_def r)
  have off0: "period (moog_engine_note_off e n) = period e"
      "glide_period (moog_engine_note_off e n) = glide_period e"
    if "\<not> 0 < cnt"
    using that by (simp_all add: moog_engine_note_off_def Let_def r)
  show ?thesis using on off1 off0 top by (simp add: c)
qed

text \<open>
  Witness for C7: with glide one half and key 60 held, pressing 64 keeps the sounding
  period; releasing 60 instead empties the stack and keeps it too; on the initialised
  engine (gate off, glide 0) pressing 64 sets the period at once.
\<close>

theorem glide_retarget_witness:
  "gate_on glide_engine_held \<noteq> 0 \<and> glide glide_engine_held > 0.001
   \<and> period (moog_engine_note_on glide_engine_held 64 1) = period glide_engine_held
   \<and> glide_period (moog_engine_note_on glide_engine_held 64 1)
       = target_period glide_engine_held 64
   \<and> \<not> 0 < key_stack_count (moog_engine_note_off glide_engine_held 60)
   \<and> period (moog_engine_note_off glide_engine_held 60) = period glide_engine_held
   \<and> \<not> (gate_on moog_engine_init \<noteq> 0 \<and> glide moog_engine_init > 0.001)
   \<and> period (moog_engine_note_on moog_engine_init 64 1) = target_period moog_engine_init 64"
proof -
  have a: "gate_on glide_engine_held \<noteq> 0 \<and> glide glide_engine_held > 0.001"
    by (simp add: glide_engine_held_facts)
  have b: "\<not> 0 < key_stack_count (moog_engine_note_off glide_engine_held 60)"
    by (simp add: count_note_off glide_engine_held_facts)
  have c: "\<not> (gate_on moog_engine_init \<noteq> 0 \<and> glide moog_engine_init > 0.001)"
    by (simp add: moog_engine_init_def engine_zero_def Let_def)
  show ?thesis
    using a b c glide_retarget [of glide_engine_held 64 1]
      glide_retarget [of glide_engine_held 60 1] glide_retarget [of moog_engine_init 64 1]
    by simp
qed

text \<open>
  Counterexample to C7 as stated: with glide one half, above the threshold, but the gate
  off, the first note-on changes the sounding period at once (here from the period of
  note 60 to the shorter period of note 72).
\<close>

theorem glide_first_note_immediate:
  "glide glide_engine > 0.001
   \<and> period (moog_engine_note_on glide_engine 72 1) \<noteq> period glide_engine"
proof -
  have "period (moog_engine_note_on glide_engine 72 1) = hz_to_period (note_to_hz 72) 44100"
    by (simp add: moog_engine_note_on_def Let_def glide_engine_facts)
  moreover have "hz_to_period (note_to_hz 72) 44100 < hz_to_period (note_to_hz 60) 44100"
    by (rule note_period_less) simp_all
  ultimately show ?thesis by (simp add: glide_engine_facts)
qed

section \<open>Pitch\<close>

text \<open>
  C9.  Twelve notes up doubles the frequency up to a relative error of \<open>10^-12\<close>:
  the constant \<open>1.0594630943593\<close> is the twelfth root of two to 14 digits, so its
  twelfth power is 2 to within about \<open>1.1 * 10^-13\<close>.  This holds for every integer
  note, in exact arithmetic.
\<close>

theorem octave_doubling:
  "\<bar>note_to_hz (n + 12) - 2 * note_to_hz n\<bar> \<le> note_to_hz n / 10 ^ 12"
proof -
  let ?c = "1.0594630943593 :: real"
  have "note_to_hz (n + 12) = note_to_hz n * ?c powr 12"
    by (simp add: note_to_hz_def powr_add del: powr_numeral)
  also have "?c powr 12 = ?c ^ 12" by simp
  finally have eq: "note_to_hz (n + 12) - 2 * note_to_hz n = note_to_hz n * (?c ^ 12 - 2)"
    by (simp add: algebra_simps)
  have "2 \<le> ?c ^ 12" and "?c ^ 12 \<le> 2 + 1 / 10 ^ 12"
    by (simp_all add: power_divide)
  then have c: "\<bar>?c ^ 12 - 2\<bar> \<le> 1 / 10 ^ 12" by simp
  have pos: "0 \<le> note_to_hz n" by (simp add: note_to_hz_def)
  have "\<bar>note_to_hz (n + 12) - 2 * note_to_hz n\<bar> = note_to_hz n * \<bar>?c ^ 12 - 2\<bar>"
    unfolding eq using pos by (simp add: abs_mult)
  also have "\<dots> \<le> note_to_hz n * (1 / 10 ^ 12)"
    using c pos by (rule mult_left_mono)
  finally show ?thesis by simp
qed

subsection \<open>Oscillator periods\<close>

lemma max_two: "max 2 (p::real) = (if p < 2 then 2 else p)"
  by (simp add: max_def)

lemma osc_period_unfold:
  "osc_period e osc cp =
     max 2 (cp * (if osc_range e osc \<noteq> 0 then 2 powr (- real_of_int (osc_range e osc)) else 1)
               * (if detune_applied e osc then 2 powr (- spec_detune_cents e osc / 1200.0) else 1))"
proof -
  have d: "(osc2_detune e - 0.5) * 100.0 = spec_detune_cents e 1"
    "(osc3_detune e - 0.5) * 100.0 = spec_detune_cents e 2"
    "(osc4_detune e - 0.5) * 100.0 = spec_detune_cents e 3"
    by (simp_all add: spec_detune_cents_def)
  consider "osc = 1" | "osc = 2" | "osc = 3" | "osc \<noteq> 1 \<and> osc \<noteq> 2 \<and> osc \<noteq> 3" by blast
  then show ?thesis
  proof cases
    case 1
    show ?thesis unfolding 1 osc_period_def Let_def d
      by (cases "\<bar>osc2_detune e\<bar> > 0.001"; cases "osc_range e 1 = 0")
         (simp_all add: detune_applied_def max_two)
  next
    case 2
    show ?thesis unfolding 2 osc_period_def Let_def d
      by (cases "\<bar>osc3_detune e\<bar> > 0.001"; cases "osc_range e 2 = 0")
         (simp_all add: detune_applied_def max_two)
  next
    case 3
    show ?thesis unfolding 3 osc_period_def Let_def d
      by (cases "\<bar>osc4_detune e - 0.5\<bar> > 0.001"; cases "osc_range e 3 = 0")
         (simp_all add: detune_applied_def max_two)
  next
    case 4
    then show ?thesis unfolding osc_period_def Let_def
      by (cases "osc_range e osc = 0") (simp_all add: detune_applied_def max_two)
  qed
qed

lemma init_osc_facts:
  "osc2_detune moog_engine_init = 0" "osc4_detune moog_engine_init = 1/2"
  "osc_range moog_engine_init 0 = 0" "osc_range moog_engine_init (Suc 0) = 0"
  "osc_range moog_engine_init 3 = 0"
  by (simp_all add: moog_engine_init_def engine_zero_def Let_def)

lemma two_powr_gt_one: "0 < x \<Longrightarrow> 1 < (2::real) powr x"
  using powr_less_mono [of 0 x 2] by simp

lemma two_powr_lt_one: "x < 0 \<Longrightarrow> (2::real) powr x < 1"
  using powr_less_mono [of x 0 2] by simp

text \<open>
  C6 (amended).  In the render loop the effective period of a slot is the specified
  product, floored at 2 samples, for oscillator 1 (no detune) and for every slot whose
  detune guard holds: oscillator 2 or 3 with \<open>|detune| > 0.001\<close>, oscillator 4 with
  \<open>|detune - 0.5| > 0.001\<close>.  For oscillator 4 inside that dead band the detune factor
  is 1.  (Oscillators 2 and 3 with \<open>|detune| \<le> 0.001\<close> are left out of the statement.)
\<close>

theorem osc_period_formula:
  "(osc = 0 \<or> detune_applied e osc \<longrightarrow>
       osc_period e osc base_period = spec_osc_period e osc base_period)
   \<and> (osc = 3 \<and> \<not> detune_applied e osc \<longrightarrow>
       osc_period e osc base_period
         = max 2 (base_period * 2 powr (- real_of_int (osc_range e osc))))"
proof -
  have z: "spec_detune_cents e 0 = 0" "\<not> detune_applied e 0"
    by (simp_all add: spec_detune_cents_def detune_applied_def)
  have r: "(if osc_range e osc \<noteq> 0 then 2 powr (- real_of_int (osc_range e osc)) else 1)
      = 2 powr (- real_of_int (osc_range e osc))"
    by simp
  show ?thesis
    unfolding osc_period_unfold r spec_osc_period_def using z by auto
qed

text \<open>
  Witness for C6: oscillator 2 audible with detune 0.48 and range -1 (guard true);
  oscillator 4 of the initialised engine at the centre 0.5 (guard false); oscillator 1
  of the initialised engine with a base period of 1 sample, floored to 2.
\<close>

theorem osc_period_formula_witness:
  "\<not> osc_volume detuned_engine 1 < 0.001
   \<and> detune_applied detuned_engine 1
   \<and> osc_period detuned_engine 1 100 = spec_osc_period detuned_engine 1 100
   \<and> spec_osc_period detuned_engine 1 100 = max 2 (100 * 2 powr 1 * 2 powr (2 / 1200))
   \<and> \<not> detune_applied moog_engine_init 3
   \<and> osc_period moog_engine_init 3 100 = 100
   \<and> \<not> osc_volume moog_engine_init 0 < 0.001
   \<and> osc_period moog_engine_init 0 1 = 2"
proof -
  have v: "\<not> osc_volume detuned_engine 1 < 0.001" "\<not> osc_volume moog_engine_init 0 < 0.001"
    by (simp_all add: detuned_engine_def moog_engine_init_def engine_zero_def Let_def)
  have a: "detune_applied detuned_engine 1"
    by (simp add: detune_applied_def detuned_engine_def)
  have b: "\<not> detune_applied moog_engine_init 3"
    by (simp add: detune_applied_def init_osc_facts)
  have c: "spec_osc_period detuned_engine 1 100 = max 2 (100 * 2 powr 1 * 2 powr (2 / 1200))"
    by (simp add: spec_osc_period_def spec_detune_cents_def detuned_engine_def)
  have d: "spec_osc_period moog_engine_init 0 1 = 2"
    by (simp add: spec_osc_period_def spec_detune_cents_def init_osc_facts)
  show ?thesis
    using v a b c d osc_period_formula [of 1 detuned_engine 100]
      osc_period_formula [of 3 moog_engine_init 100] osc_period_formula [of 0 moog_engine_init 1]
    by (simp add: init_osc_facts)
qed

text \<open>
  Counterexample to C6 as stated.  With oscillator 2 audible and its detune at 0, as
  \<open>moog_engine_init\<close> leaves it, the guard \<open>|detune| > 0.001\<close> skips the detune and
  the period stays 100, where the formula gives -50 cents and a longer period.  With
  oscillator 4 audible and its detune at 0.5005 the guard \<open>|detune - 0.5| > 0.001\<close>
  skips it too, where the formula gives 0.05 cents and a shorter period.
\<close>

theorem osc_period_guards:
  "\<not> osc_volume undetuned_engine 1 < 0.001
   \<and> osc_period undetuned_engine 1 100 \<noteq> spec_osc_period undetuned_engine 1 100
   \<and> \<not> osc_volume deadband_engine 3 < 0.001
   \<and> osc_period deadband_engine 3 100 \<noteq> spec_osc_period deadband_engine 3 100"
proof -
  have v: "\<not> osc_volume undetuned_engine 1 < 0.001" "\<not> osc_volume deadband_engine 3 < 0.001"
    by (simp_all add: undetuned_engine_def deadband_engine_def)
  have a: "osc_period undetuned_engine 1 100 = 100"
    by (simp add: osc_period_unfold detune_applied_def undetuned_engine_def init_osc_facts)
  have up: "spec_osc_period undetuned_engine 1 100 = max 2 (100 * 2 powr (50 / 1200))"
    by (simp add: spec_osc_period_def spec_detune_cents_def undetuned_engine_def init_osc_facts)
  have "1 < (2::real) powr (50 / 1200)" by (rule two_powr_gt_one) simp
  then have "100 < 100 * (2::real) powr (50 / 1200)" by linarith
  then have b: "100 < spec_osc_period undetuned_engine 1 100"
    unfolding up less_max_iff_disj by (rule disjI2)
  have c: "osc_period deadband_engine 3 100 = 100"
    by (simp add: osc_period_unfold detune_applied_def deadband_engine_def init_osc_facts)
  have dn: "spec_osc_period deadband_engine 3 100 = max 2 (100 * 2 powr (- (5 / 100) / 1200))"
    by (simp add: spec_osc_period_def spec_detune_cents_def deadband_engine_def init_osc_facts)
  have "(2::real) powr (- (5 / 100) / 1200) < 1" by (rule two_powr_lt_one) simp
  then have "100 * (2::real) powr (- (5 / 100) / 1200) < 100" by linarith
  moreover have "(2::real) < 100" by simp
  ultimately have d: "spec_osc_period deadband_engine 3 100 < 100"
    unfolding dn max_less_iff_conj by (intro conjI)
  show ?thesis using v a b c d by simp
qed

section \<open>Block size\<close>

lemma render_loop_length: "length (snd (render_loop br gr li k e)) = k"
  by (induction k arbitrary: e) (simp_all add: case_prod_beta Let_def)

lemma render_length: "length (snd (moog_engine_render e frames)) = nat frames"
  by (simp add: moog_engine_render_def case_prod_beta render_loop_length)

lemma stereo_length: "length (concat (map (\<lambda>x. [f x, f x]) xs)) = 2 * length xs"
  by (induction xs) simp_all

text \<open>
  C8.  Rendering is a total function with no error result.  \<open>moog_engine_render\<close>
  writes exactly \<open>frames\<close> mono samples (none for a negative count).
  \<open>v2_render_block\<close> on an instance always returns the instance, renders
  \<open>min frames 256\<close> mono samples, a larger request being cut to 256 without any
  error, and writes two 16-bit values per rendered frame.
\<close>

theorem render_frame_count:
  "int (length (snd (moog_engine_render e frames))) = max 0 frames
   \<and> fst (v2_render_block (Some inst) frames) \<noteq> None
   \<and> fst (snd (v2_render_block (Some inst) frames))
       = snd (moog_engine_render (engine inst) (min frames 256))
   \<and> int (length (fst (snd (v2_render_block (Some inst) frames)))) = max 0 (min frames 256)
   \<and> int (length (snd (snd (v2_render_block (Some inst) frames)))) = 2 * max 0 (min frames 256)"
proof -
  have m: "(if frames > 256 then 256 else frames) = min frames 256" by simp
  show ?thesis
    unfolding v2_render_block_def Let_def case_prod_beta m
    by (simp add: render_length stereo_length del: min_less_iff_conj)
qed

section \<open>Envelopes\<close>

subsection \<open>One envelope step\<close>

lemma unit_mix:
  fixes a q :: real
  assumes "0 \<le> a" "a \<le> 1" "0 \<le> q" "q \<le> 1"
  shows "0 \<le> a + (1 - a) * q" "a + (1 - a) * q \<le> 1"
proof -
  have "0 \<le> (1 - a) * q" using assms by simp
  then show "0 \<le> a + (1 - a) * q" using assms(1) by linarith
  have "(1 - a) * q \<le> (1 - a) * 1" using assms by (intro mult_left_mono) simp_all
  then show "a + (1 - a) * q \<le> 1" by simp
qed

lemma unit_square:
  fixes p :: real
  assumes "0 \<le> p" "p \<le> 1"
  shows "0 \<le> p * p" "p * p \<le> 1"
  using assms by (simp_all add: mult_le_one)

lemma param_to_time_pos: "0 < sr \<Longrightarrow> 0 < param_to_time p sr"
proof -
  assume "0 < sr"
  moreover have "0 < 0.001 + p * p * 5.0" by (simp add: add_pos_nonneg)
  ultimately show ?thesis unfolding param_to_time_def Let_def by (rule mult_pos_pos [rotated])
qed

lemma envelope_process_ok:
  assumes al: "0 \<le> al" "al \<le> 1" and rl: "0 \<le> rl" "rl \<le> 1"
    and cn: "0 \<le> cn" and sus: "0 \<le> sus" "sus \<le> 1" and sr: "0 < sr"
  shows "env_ok (fst (envelope_process st lv al rl cn a d sus r sr))
                (fst (snd (envelope_process st lv al rl cn a d sus r sr)))
         \<and> 0 \<le> snd (snd (envelope_process st lv al rl cn a d sus r sr))"
proof (cases st)
  case ENV_OFF
  then show ?thesis using cn by (simp add: envelope_process_def env_ok_def Let_def)
next
  case ENV_SUSTAIN
  then show ?thesis using cn sus by (simp add: envelope_process_def env_ok_def Let_def)
next
  case ENV_ATTACK
  define g where "g = cn / param_to_time a sr"
  have g0: "0 \<le> g" unfolding g_def using cn param_to_time_pos [OF sr, of a] by simp
  show ?thesis
  proof (cases "1 \<le> g")
    case True
    then show ?thesis using ENV_ATTACK
      by (simp add: envelope_process_def env_ok_def Let_def g_def)
  next
    case False
    then have "g \<le> 1" by simp
    from unit_square [OF g0 this] have q: "0 \<le> g * g" "g * g \<le> 1" .
    from unit_mix [OF al q] False cn ENV_ATTACK show ?thesis
      by (simp add: envelope_process_def env_ok_def Let_def g_def)
  qed
next
  case ENV_DECAY
  define g where "g = cn / param_to_time d sr"
  have g0: "0 \<le> g" unfolding g_def using cn param_to_time_pos [OF sr, of d] by simp
  show ?thesis
  proof (cases "1 \<le> g")
    case True
    then show ?thesis using ENV_DECAY sus
      by (simp add: envelope_process_def env_ok_def Let_def g_def)
  next
    case False
    then have "0 \<le> 1 - g" "1 - g \<le> 1" using g0 by simp_all
    from unit_square [OF this] have q: "0 \<le> (1 - g) * (1 - g)" "(1 - g) * (1 - g) \<le> 1" .
    from unit_mix [OF sus q] False cn ENV_DECAY show ?thesis
      by (simp add: envelope_process_def env_ok_def Let_def g_def mult.assoc)
  qed
next
  case ENV_RELEASE
  define g where "g = cn / param_to_time r sr"
  have g0: "0 \<le> g" unfolding g_def using cn param_to_time_pos [OF sr, of r] by simp
  show ?thesis
  proof (cases "1 \<le> g")
    case True
    then show ?thesis using ENV_RELEASE
      by (simp add: envelope_process_def env_ok_def Let_def g_def)
  next
    case False
    then have "0 \<le> 1 - g" "1 - g \<le> 1" using g0 by simp_all
    from unit_square [OF this] have q: "0 \<le> (1 - g) * (1 - g)" "(1 - g) * (1 - g) \<le> 1" .
    have "0 \<le> rl * ((1 - g) * (1 - g))" using rl(1) q(1) by simp
    moreover have "rl * ((1 - g) * (1 - g)) \<le> 1" using rl q by (simp add: mult_le_one)
    ultimately show ?thesis using False cn ENV_RELEASE
      by (simp add: envelope_process_def env_ok_def Let_def g_def mult.assoc)
  qed
qed

subsection \<open>The envelopes under every event\<close>

lemma process_envelopes_inv:
  assumes "env_inv e"
  shows "env_inv (process_envelopes e)"
proof -
  let ?a = "envelope_process (amp_env_state e) (amp_env_level e) (amp_env_attack_level e)
      (amp_env_release_level e) (amp_env_counter e)
      (amp_attack e) (amp_decay e) (amp_sustain e) (amp_release e) (sample_rate e)"
  let ?f = "envelope_process (filt_env_state e) (filt_env_level e) (filt_env_attack_level e)
      (filt_env_release_level e) (filt_env_counter e)
      (filt_attack e) (filt_decay e) (filt_sustain e) (filt_release e) (sample_rate e)"
  have a: "env_ok (fst ?a) (fst (snd ?a)) \<and> 0 \<le> snd (snd ?a)"
    using assms by (intro envelope_process_ok) (simp_all add: env_inv_def)
  have f: "env_ok (fst ?f) (fst (snd ?f)) \<and> 0 \<le> snd (snd ?f)"
    using assms by (intro envelope_process_ok) (simp_all add: env_inv_def)
  have "process_envelopes e = e \<lparr>
      amp_env_state := fst ?a, amp_env_level := fst (snd ?a), amp_env_counter := snd (snd ?a),
      filt_env_state := fst ?f, filt_env_level := fst (snd ?f), filt_env_counter := snd (snd ?f) \<rparr>"
    by (simp add: process_envelopes_def Let_def case_prod_beta)
  then show ?thesis using assms a f by (simp add: env_inv_def envelopes_ok_def)
qed

lemma env_inv_cong:
  assumes "env_inv e"
    and "amp_env_state e' = amp_env_state e" "amp_env_level e' = amp_env_level e"
    and "amp_env_attack_level e' = amp_env_attack_level e"
    and "amp_env_release_level e' = amp_env_release_level e"
    and "amp_env_counter e' = amp_env_counter e"
    and "filt_env_state e' = filt_env_state e" "filt_env_level e' = filt_env_level e"
    and "filt_env_attack_level e' = filt_env_attack_level e"
    and "filt_env_release_level e' = filt_env_release_level e"
    and "filt_env_counter e' = filt_env_counter e"
    and "amp_sustain e' = amp_sustain e" "filt_sustain e' = filt_sustain e"
    and "sample_rate e' = sample_rate e"
  shows "env_inv e'"
  using assms by (simp add: env_inv_def envelopes_ok_def)

lemma render_sample_inv:
  assumes "env_inv e"
  shows "env_inv (fst (render_sample br gr li e))"
proof -
  have 1: "env_inv (update_lfo li (update_glide gr e))"
    using assms by (rule env_inv_cong) (simp_all add: stage_keeps)
  then have 2: "env_inv (process_envelopes (update_lfo li (update_glide gr e)))"
    by (rule process_envelopes_inv)
  show ?thesis
    unfolding render_sample_def Let_def case_prod_beta fst_conv
    using 2 by (rule env_inv_cong) (simp_all add: stage_keeps)
qed

lemma render_loop_inv:
  "env_inv e \<Longrightarrow> env_inv (fst (render_loop br gr li k e))"
proof (induction k arbitrary: e)
  case 0
  then show ?case by simp
next
  case (Suc k)
  from Suc.prems have "env_inv (fst (render_sample br gr li e))" by (rule render_sample_inv)
  then have "env_inv (fst (render_loop br gr li k (fst (render_sample br gr li e))))"
    by (rule Suc.IH)
  then show ?case by (simp add: case_prod_beta Let_def)
qed

lemma note_on_inv: "env_inv e \<Longrightarrow> env_inv (moog_engine_note_on e n v)"
  by (simp add: moog_engine_note_on_def Let_def env_inv_def envelopes_ok_def env_ok_def)

lemma note_off_inv: "env_inv e \<Longrightarrow> env_inv (moog_engine_note_off e n)"
  by (simp add: moog_engine_note_off_def Let_def case_prod_beta env_inv_def envelopes_ok_def
      env_ok_def)

lemma step_inv:
  assumes "env_inv e" "params_in_range (ev # evs)"
  shows "env_inv (step e ev)"
proof (cases ev)
  case (NoteOn n v)
  then show ?thesis using assms(1) by (simp add: note_on_inv)
next
  case (NoteOff n)
  then show ?thesis using assms(1) by (simp add: note_off_inv)
next
  case (Render frames)
  then show ?thesis using assms(1)
    by (simp add: moog_engine_render_def case_prod_beta render_loop_inv)
next
  case (ApplyParams ps)
  then have "env_params_ok ps" using assms(2) by simp
  then show ?thesis using assms(1) ApplyParams
    by (simp add: apply_params_to_engine_def Let_def env_inv_def envelopes_ok_def
        env_params_ok_def)
qed (use assms(1) in \<open>simp_all add: moog_engine_pitch_bend_def moog_engine_mod_wheel_def
      moog_engine_all_notes_off_def moog_engine_reset_def env_inv_def envelopes_ok_def
      env_ok_def\<close>)

lemma params_in_range_tail: "params_in_range (ev # evs) \<Longrightarrow> params_in_range evs"
  by (cases ev) simp_all

lemma run_inv:
  "env_inv e \<Longrightarrow> params_in_range evs \<Longrightarrow> env_inv (run e evs)"
proof (induction evs arbitrary: e)
  case Nil
  then show ?case by (simp add: run_def)
next
  case (Cons ev evs)
  have "env_inv (step e ev)" using Cons.prems by (rule step_inv)
  moreover have "params_in_range evs" using Cons.prems(2) by (rule params_in_range_tail)
  ultimately have "env_inv (run (step e ev) evs)" by (rule Cons.IH)
  then show ?case by (simp add: run_def)
qed

lemma init_inv: "env_inv moog_engine_init"
  by (simp add: env_inv_def envelopes_ok_def env_ok_def moog_engine_init_def engine_zero_def
      Let_def MOOG_SAMPLE_RATE_def)

text \<open>
  C3.  From an initialised engine, along every sequence of events whose parameter writes
  keep the envelope parameters in \<open>[0, 1]\<close>, each envelope's level is in \<open>[0, 1]\<close>
  and is 0 whenever the envelope is Off: after every event, and after every single pass
  of the sample loop inside a render call (whatever the block constants).
\<close>

theorem envelope_levels_bounded:
  assumes "params_in_range evs"
  shows "envelopes_ok (run moog_engine_init evs)
         \<and> envelopes_ok (fst (render_loop br gr li k (run moog_engine_init evs)))"
proof -
  have "env_inv (run moog_engine_init evs)" using init_inv assms by (rule run_inv)
  moreover from this have "env_inv (fst (render_loop br gr li k (run moog_engine_init evs)))"
    by (rule render_loop_inv)
  ultimately show ?thesis by (simp add: env_inv_def)
qed

text \<open>
  Witness for C3: the example sequence keeps the parameters at one half; after its final
  all-notes-off both envelopes are Off with level 0.
\<close>

theorem envelope_levels_bounded_witness:
  "params_in_range example_events
   \<and> amp_env_state (run moog_engine_init example_events) = ENV_OFF
   \<and> amp_env_level (run moog_engine_init example_events) = 0
   \<and> filt_env_state (run moog_engine_init example_events) = ENV_OFF
   \<and> filt_env_level (run moog_engine_init example_events) = 0"
proof -
  have p: "params_in_range example_events"
    by (simp add: example_events_def env_params_ok_def)
  have "run moog_engine_init example_events = moog_engine_all_notes_off
      (run moog_engine_init [ApplyParams (\<lambda>_. 1/2), NoteOn 60 1, Render 128, NoteOff 60, Render 128])"
    by (simp add: run_def example_events_def)
  then have s: "amp_env_state (run moog_engine_init example_events) = ENV_OFF"
      "filt_env_state (run moog_engine_init example_events) = ENV_OFF"
    by (simp_all add: moog_engine_all_notes_off_def)
  show ?thesis using p s envelope_levels_bounded [OF p, of 1 1 1 0]
    by (simp add: envelopes_ok_def env_ok_def)
qed

section \<open>The ladder filter\<close>

subsection \<open>Coefficients and one update\<close>

lemma ladder_coeffs_range:
  assumes "0 \<le> r" "r \<le> 1"
  shows "0.00116 \<le> fst (ladder_coeffs c r sr)" "fst (ladder_coeffs c r sr) \<le> 0.5684"
    "0 \<le> snd (ladder_coeffs c r sr)" "snd (ladder_coeffs c r sr) \<le> 1"
proof -
  define fc where "fc = (let fc = c / sr; fc = (if fc > 0.49 then 0.49 else fc)
                         in if fc < 0.001 then 0.001 else fc)"
  define g where "g = fc * 1.16"
  have fc: "0.001 \<le> fc" "fc \<le> 0.49" by (simp_all add: fc_def Let_def)
  have f: "fst (ladder_coeffs c r sr) = g"
    by (simp add: ladder_coeffs_def fc_def g_def Let_def)
  have fb: "snd (ladder_coeffs c r sr) = r * (1 - 0.15 * g * g)"
    by (simp add: ladder_coeffs_def fc_def g_def Let_def)
  show "0.00116 \<le> fst (ladder_coeffs c r sr)" "fst (ladder_coeffs c r sr) \<le> 0.5684"
    using fc by (simp_all add: f g_def)
  have g: "0 \<le> g" "g \<le> 1" using fc by (simp_all add: g_def)
  have "0 \<le> g * g" using g(1) by simp
  moreover have "g * g \<le> 1" using g by (intro mult_le_one)
  ultimately have h: "0 \<le> 1 - 0.15 * g * g" "1 - 0.15 * g * g \<le> 1"
    by (simp_all add: mult.assoc)
  show "0 \<le> snd (ladder_coeffs c r sr)"
    unfolding fb using assms(1) h(1) by (rule mult_nonneg_nonneg)
  show "snd (ladder_coeffs c r sr) \<le> 1"
    unfolding fb using assms(2) h(1) h(2) by (rule mult_le_one)
qed

lemma ladder_tick_clamp: "\<bar>snd (snd (snd (snd (ladder_tick f fb t x))))\<bar> \<le> 4"
  by (cases t) (simp add: ladder_tick_def Let_def abs_le_iff)

lemma scaled_abs_le:
  fixes c y B :: real
  shows "0 \<le> c \<Longrightarrow> \<bar>y\<bar> \<le> B \<Longrightarrow> \<bar>c * y\<bar> \<le> c * B"
  by (simp add: abs_mult mult_left_mono)

lemma ladder_stage_sum:
  fixes a f :: real
  shows "a * f + (1 - f) * a = a"
  by (simp add: algebra_simps)

lemma ladder_tick_inv:
  assumes inv: "taps_inv f t" and x: "\<bar>x\<bar> \<le> 5"
    and f: "0 \<le> f" "f \<le> 1" and fb: "0 \<le> fb" "fb \<le> 1"
  shows "taps_inv f (ladder_tick f fb t x)"
proof -
  obtain b0 b1 b2 b3 b4 where t: "t = (b0, b1, b2, b3, b4)" by (cases t)
  define K :: real where "K = 3.15117"
  have K: "0 \<le> K" by (simp add: K_def)
  from inv have b: "\<bar>b0\<bar> \<le> K * (f * f * f * f)" "\<bar>b1\<bar> \<le> 1.3 * K * (f * f * f)"
    "\<bar>b2\<bar> \<le> 1.69 * K * (f * f)" "\<bar>b3\<bar> \<le> 2.197 * K * f" "\<bar>b4\<bar> \<le> 4"
    by (simp_all add: taps_inv_def t K_def)
  define i0 where "i0 = x - b4 * fb"
  define i1 where "i1 = i0 * (0.35013 * f * f * f * f)"
  define c1 where "c1 = i1 + 0.3 * b0 + (1.0 - f) * b1"
  define c2 where "c2 = c1 + 0.3 * c1 + (1.0 - f) * b2"
  define c3 where "c3 = c2 + 0.3 * c2 + (1.0 - f) * b3"
  define c4 where "c4 = c3 + 0.3 * c3 + (1.0 - f) * b4"
  define d4 where "d4 = (if (if c4 > 4.0 then 4.0 else c4) < - 4.0 then - 4.0
                         else (if c4 > 4.0 then 4.0 else c4))"
  have tick: "ladder_tick f fb t x = (i1, c1, c2, c3, d4)"
    unfolding ladder_tick_def t Let_def prod.case i0_def i1_def c1_def c2_def c3_def c4_def
      d4_def by (rule refl)
  have f1: "0 \<le> 1 - f" using f by simp
  have ff: "0 \<le> f * f" "0 \<le> f * f * f" "0 \<le> f * f * f * f" using f by simp_all
  have "\<bar>b4 * fb\<bar> \<le> 4 * 1" unfolding abs_mult using b(5) fb by (intro mult_mono) simp_all
  then have a0: "\<bar>i0\<bar> \<le> 9" unfolding i0_def using x by linarith
  have "\<bar>i1\<bar> = \<bar>i0\<bar> * (0.35013 * (f * f * f * f))"
    unfolding i1_def abs_mult using ff(3) by (simp add: mult.assoc)
  also have "\<dots> \<le> 9 * (0.35013 * (f * f * f * f))"
    using a0 ff(3) by (intro mult_right_mono) simp_all
  also have "\<dots> = K * (f * f * f * f)" by (simp add: K_def)
  finally have a1: "\<bar>i1\<bar> \<le> K * (f * f * f * f)" .
  from scaled_abs_le [OF f1 b(2)]
  have "\<bar>c1\<bar> \<le> K * (f * f * f * f) + 0.3 * (K * (f * f * f * f))
      + (1 - f) * (1.3 * K * (f * f * f))"
    unfolding c1_def using a1 b(1) by (simp add: abs_if split: if_splits)
  also have "K * (f * f * f * f) + 0.3 * (K * (f * f * f * f)) = (1.3 * K * (f * f * f)) * f"
    by (simp add: algebra_simps)
  also have "(1.3 * K * (f * f * f)) * f + (1 - f) * (1.3 * K * (f * f * f))
      = 1.3 * K * (f * f * f)"
    by (rule ladder_stage_sum)
  finally have a2: "\<bar>c1\<bar> \<le> 1.3 * K * (f * f * f)" .
  from scaled_abs_le [OF f1 b(3)]
  have "\<bar>c2\<bar> \<le> 1.3 * (1.3 * K * (f * f * f)) + (1 - f) * (1.69 * K * (f * f))"
    unfolding c2_def using a2 by (simp add: abs_if split: if_splits)
  also have "1.3 * (1.3 * K * (f * f * f)) = (1.69 * K * (f * f)) * f"
    by (simp add: algebra_simps)
  also have "(1.69 * K * (f * f)) * f + (1 - f) * (1.69 * K * (f * f)) = 1.69 * K * (f * f)"
    by (rule ladder_stage_sum)
  finally have a3: "\<bar>c2\<bar> \<le> 1.69 * K * (f * f)" .
  from scaled_abs_le [OF f1 b(4)]
  have "\<bar>c3\<bar> \<le> 1.3 * (1.69 * K * (f * f)) + (1 - f) * (2.197 * K * f)"
    unfolding c3_def using a3 by (simp add: abs_if split: if_splits)
  also have "1.3 * (1.69 * K * (f * f)) = (2.197 * K * f) * f"
    by (simp add: algebra_simps)
  also have "(2.197 * K * f) * f + (1 - f) * (2.197 * K * f) = 2.197 * K * f"
    by (rule ladder_stage_sum)
  finally have a4: "\<bar>c3\<bar> \<le> 2.197 * K * f" .
  have a5: "\<bar>d4\<bar> \<le> 4" by (simp add: d4_def abs_le_iff)
  show ?thesis unfolding tick using a1 a2 a3 a4 a5 by (simp add: taps_inv_def K_def)
qed

text \<open>
  One filtered sample of the render loop is one step of \<open>filter_run\<close> on the engine's
  taps, at the cutoff the loop computes for that sample.
\<close>

lemma filter_sample_taps:
  "taps_of (filter_sample e x fe lv)
     = filter_run (filter_resonance e) (sample_rate e) (taps_of e)
         [(cutoff_normalized e fe lv, x)]"
proof -
  obtain b0 b1 b2 b3 b4 where t:
    "ladder_tick
       (fst (ladder_coeffs (20.0 * 1000.0 powr cutoff_normalized e fe lv)
               (filter_resonance e) (sample_rate e)))
       (snd (ladder_coeffs (20.0 * 1000.0 powr cutoff_normalized e fe lv)
               (filter_resonance e) (sample_rate e)))
       (taps_of e) x = (b0, b1, b2, b3, b4)"
    by (metis prod_cases5)
  show ?thesis
    using t by (simp add: filter_sample_def taps_of_def Let_def case_prod_beta)
qed

subsection \<open>A fixed cutoff\<close>

lemma bound_weaken:
  fixes y c q f :: real
  shows "\<bar>y\<bar> \<le> c * q \<Longrightarrow> q \<le> f \<Longrightarrow> 0 \<le> c \<Longrightarrow> \<bar>y\<bar> \<le> c * f"
  by (meson mult_left_mono order_trans)

lemma taps_inv_bounded:
  assumes "taps_inv f t" "0 \<le> f" "f \<le> 0.5684"
  shows "taps_bounded t"
proof -
  obtain b0 b1 b2 b3 b4 where t: "t = (b0, b1, b2, b3, b4)" by (cases t)
  from assms(1) have b: "\<bar>b0\<bar> \<le> 3.15117 * (f * f * f * f)"
    "\<bar>b1\<bar> \<le> 1.3 * 3.15117 * (f * f * f)"
    "\<bar>b2\<bar> \<le> 1.69 * 3.15117 * (f * f)" "\<bar>b3\<bar> \<le> 2.197 * 3.15117 * f" "\<bar>b4\<bar> \<le> 4"
    by (simp_all add: taps_inv_def t)
  have f1: "f \<le> 1" using assms(3) by simp
  have p2: "f * f \<le> f" using assms(2) f1 by (simp add: mult_left_le)
  have p3: "f * f * f \<le> f" using assms(2) f1 p2 by (meson mult_left_le_one_le order_trans mult_nonneg_nonneg)
  have p4: "f * f * f * f \<le> f" using assms(2) f1 p3 by (meson mult_left_le_one_le order_trans mult_nonneg_nonneg)
  have "\<bar>b0\<bar> \<le> 3.15117 * f" using b(1) p4 by (rule bound_weaken) simp
  moreover have "\<bar>b1\<bar> \<le> 1.3 * 3.15117 * f" using b(2) p3 by (rule bound_weaken) simp
  moreover have "\<bar>b2\<bar> \<le> 1.69 * 3.15117 * f" using b(3) p2 by (rule bound_weaken) simp
  ultimately show ?thesis using b(4,5) assms(3) by (simp add: taps_bounded_def t)
qed

lemma filter_loop_inv:
  assumes "taps_inv f t" "\<forall>x \<in> set xs. \<bar>x\<bar> \<le> 5" "0 \<le> f" "f \<le> 1" "0 \<le> fb" "fb \<le> 1"
  shows "taps_inv f (fst (filter_loop f fb t xs))
         \<and> (\<forall>y \<in> set (snd (filter_loop f fb t xs)). \<bar>y\<bar> \<le> 4)"
  using assms(1,2)
proof (induction xs arbitrary: t)
  case Nil
  then show ?case by simp
next
  case (Cons x xs)
  have "\<bar>x\<bar> \<le> 5" using Cons.prems(2) by simp
  with Cons.prems(1) have i: "taps_inv f (ladder_tick f fb t x)"
    using assms(3-6) by (intro ladder_tick_inv)
  have "\<forall>x \<in> set xs. \<bar>x\<bar> \<le> 5" using Cons.prems(2) by simp
  from Cons.IH [OF i this] ladder_tick_clamp [of f fb t x]
  show ?case by (simp add: case_prod_beta Let_def)
qed

lemma filter_loop_length: "length (snd (filter_loop f fb t xs)) = length xs"
  by (induction xs arbitrary: t) (simp_all add: case_prod_beta Let_def)

lemma filter_run_fixed:
  assumes "\<forall>p \<in> set cxs. fst p = c"
  shows "filter_run r sr t cxs
       = fst (filter_loop (fst (ladder_coeffs (20.0 * 1000.0 powr c) r sr))
                          (snd (ladder_coeffs (20.0 * 1000.0 powr c) r sr)) t (map snd cxs))"
  using assms
proof (induction cxs arbitrary: t)
  case Nil
  show ?case by simp
next
  case (Cons p cxs)
  obtain c' x where p: "p = (c', x)" by (cases p)
  have c: "c' = c" using Cons.prems p by simp
  have "\<forall>p \<in> set cxs. fst p = c" using Cons.prems by simp
  from Cons.IH [OF this] show ?case by (simp add: p c case_prod_beta Let_def)
qed

lemma moog_filter_process_out:
  "fst (moog_filter_process xs prev cutoff_hz r sr)
     = snd (filter_loop (fst (ladder_coeffs cutoff_hz r sr)) (snd (ladder_coeffs cutoff_hz r sr))
              (prev 0, prev 1, prev 2, prev 3, prev 4) xs)"
  by (simp add: moog_filter_process_def case_prod_beta)

text \<open>
  C2 (amended).  For a resonance in \<open>[0, 1]\<close>, in particular 1, and a normalised
  cutoff that is the same for every sample, starting from zeroed taps, after any number of
  samples whose input stays within \<open>\<plusminus>5\<close> (a unit step among them) every tap is
  within \<open>\<plusminus>4\<close>, and so is every sample \<open>moog_filter_process\<close> writes for
  that input.  The final tap is within \<open>\<plusminus>4\<close> after every sample the render loop
  filters, whatever the engine state, the cutoff and the input: the clamp acts on it alone.
\<close>

theorem filter_taps_bounded:
  assumes "0 \<le> resonance" "resonance \<le> 1"
    and "\<forall>p \<in> set cxs. fst p = c \<and> \<bar>snd p\<bar> \<le> 5"
  shows "taps_bounded (filter_run resonance sr (0, 0, 0, 0, 0) cxs)
     \<and> list_all (\<lambda>y. \<bar>y\<bar> \<le> 4)
          (fst (moog_filter_process (map snd cxs) (\<lambda>_. 0) (20.0 * 1000.0 powr c) resonance sr))
     \<and> \<bar>filter_prev (filter_sample e x fe lv) 4\<bar> \<le> 4"
proof -
  let ?f = "fst (ladder_coeffs (20.0 * 1000.0 powr c) resonance sr)"
  let ?fb = "snd (ladder_coeffs (20.0 * 1000.0 powr c) resonance sr)"
  note r = ladder_coeffs_range [OF assms(1,2), of "20.0 * 1000.0 powr c" sr]
  have f: "0 \<le> ?f" "?f \<le> 1" using r(1,2) by simp_all
  have z: "taps_inv ?f (0, 0, 0, 0, 0)" using f(1) by (simp add: taps_inv_def)
  have xs: "\<forall>x \<in> set (map snd cxs). \<bar>x\<bar> \<le> 5" using assms(3) by simp
  have cs: "\<forall>p \<in> set cxs. fst p = c" using assms(3) by simp
  from filter_loop_inv [OF z xs f r(3,4)]
  have i: "taps_inv ?f (fst (filter_loop ?f ?fb (0, 0, 0, 0, 0) (map snd cxs)))"
    and o: "\<forall>y \<in> set (snd (filter_loop ?f ?fb (0, 0, 0, 0, 0) (map snd cxs))). \<bar>y\<bar> \<le> 4"
    by simp_all
  have "taps_bounded (fst (filter_loop ?f ?fb (0, 0, 0, 0, 0) (map snd cxs)))"
    using i f(1) r(2) by (rule taps_inv_bounded)
  then have b: "taps_bounded (filter_run resonance sr (0, 0, 0, 0, 0) cxs)"
    by (simp only: filter_run_fixed [OF cs])
  have p: "list_all (\<lambda>y. \<bar>y\<bar> \<le> 4)
      (fst (moog_filter_process (map snd cxs) (\<lambda>_. 0) (20.0 * 1000.0 powr c) resonance sr))"
    unfolding moog_filter_process_out list_all_iff using o .
  have s: "\<bar>filter_prev (filter_sample e x fe lv) 4\<bar> \<le> 4"
    using ladder_tick_clamp
      [of "fst (ladder_coeffs (20.0 * 1000.0 powr (cutoff_normalized e fe lv))
                 (filter_resonance e) (sample_rate e))"
          "snd (ladder_coeffs (20.0 * 1000.0 powr (cutoff_normalized e fe lv))
                 (filter_resonance e) (sample_rate e))"
          "(filter_prev e 0, filter_prev e 1, filter_prev e 2, filter_prev e 3, filter_prev e 4)"
          x]
    by (simp add: filter_sample_def Let_def case_prod_beta)
  show ?thesis using b p s by simp
qed

text \<open>
  Witness for C2: resonance 1, normalised cutoff one half, sample rate 44100, and 10000
  samples of a unit step.
\<close>

theorem filter_taps_bounded_witness:
  "(0::real) \<le> 1 \<and> (1::real) \<le> 1
   \<and> list_all (\<lambda>p. fst p = (1/2::real) \<and> \<bar>snd p :: real\<bar> \<le> 5) (replicate 10000 (1/2, 1))
   \<and> taps_bounded (filter_run 1 44100 (0, 0, 0, 0, 0) (replicate 10000 (1/2, 1)))
   \<and> length (fst (moog_filter_process (map snd (replicate 10000 (1/2, 1))) (\<lambda>_. 0)
         (20.0 * 1000.0 powr (1/2)) 1 44100)) = 10000
   \<and> list_all (\<lambda>y. \<bar>y\<bar> \<le> 4)
        (fst (moog_filter_process (map snd (replicate 10000 (1/2, 1))) (\<lambda>_. 0)
         (20.0 * 1000.0 powr (1/2)) 1 44100))"
proof -
  have h: "\<forall>p \<in> set (replicate 10000 (1/2, 1)). fst p = (1/2::real) \<and> \<bar>snd p :: real\<bar> \<le> 5"
    by simp
  have r: "(0::real) \<le> 1" "(1::real) \<le> 1" by simp_all
  have l: "length (fst (moog_filter_process (map snd (replicate 10000 (1/2, 1))) (\<lambda>_. 0)
         (20.0 * 1000.0 powr (1/2)) 1 44100)) = 10000"
    by (simp only: moog_filter_process_out filter_loop_length length_map length_replicate)
  from filter_taps_bounded [OF r h, of 44100] h l
  show ?thesis unfolding list_all_iff [of _ "replicate 10000 (1/2, 1)"] by (intro conjI) simp_all
qed

subsection \<open>A cutoff that changes\<close>

lemma coeffs_open: "ladder_coeffs 20000 1 44100 = (232 / 441, 310679 / 324135)"
  by (simp add: ladder_coeffs_def Let_def)

lemma coeffs_closed:
  "ladder_coeffs 20 1 44100 = (29 / 25000, 12499997477 / 12500000000)"
  by (simp add: ladder_coeffs_def Let_def)

lemma ladder_tick_above:
  assumes t: "taps_above l0 l1 l2 l3 t"
    and f: "0 \<le> f" "f \<le> 1" and fb: "0 \<le> fb" "fb \<le> 1"
    and k: "k0 \<le> - 1.05039 * (f * f * f * f)" "k1 \<le> k0 + 0.3 * l0 + (1 - f) * l1"
      "k2 \<le> 1.3 * k1 + (1 - f) * l2" "k3 \<le> 1.3 * k2 + (1 - f) * l3"
  shows "taps_above k0 k1 k2 k3 (ladder_tick f fb t 1)"
proof -
  obtain b0 b1 b2 b3 b4 where tt: "t = (b0, b1, b2, b3, b4)" by (cases t)
  from t have b: "l0 \<le> b0" "l1 \<le> b1" "l2 \<le> b2" "l3 \<le> b3" "\<bar>b4\<bar> \<le> 4"
    by (simp_all add: taps_above_def tt)
  define i0 where "i0 = 1 - b4 * fb"
  define i1 where "i1 = i0 * (0.35013 * f * f * f * f)"
  define c1 where "c1 = i1 + 0.3 * b0 + (1.0 - f) * b1"
  define c2 where "c2 = c1 + 0.3 * c1 + (1.0 - f) * b2"
  define c3 where "c3 = c2 + 0.3 * c2 + (1.0 - f) * b3"
  define c4 where "c4 = c3 + 0.3 * c3 + (1.0 - f) * b4"
  define d4 where "d4 = (if (if c4 > 4.0 then 4.0 else c4) < - 4.0 then - 4.0
                         else (if c4 > 4.0 then 4.0 else c4))"
  have tick: "ladder_tick f fb t 1 = (i1, c1, c2, c3, d4)"
    unfolding ladder_tick_def tt Let_def prod.case i0_def i1_def c1_def c2_def c3_def c4_def
      d4_def by (rule refl)
  have f1: "0 \<le> 1 - f" using f by simp
  define g where "g = 0.35013 * (f * f * f * f)"
  have g: "0 \<le> g" unfolding g_def using f by simp
  have "\<bar>b4 * fb\<bar> \<le> 4 * 1" unfolding abs_mult using b(5) fb by (intro mult_mono) simp_all
  then have "- 3 \<le> i0" unfolding i0_def by linarith
  then have "- 3 * g \<le> i0 * g" using g by (rule mult_right_mono)
  moreover have "i1 = i0 * g" by (simp add: i1_def g_def mult.assoc)
  moreover have "- 3 * g = - 1.05039 * (f * f * f * f)" by (simp add: g_def)
  ultimately have a0: "k0 \<le> i1" using k(1) by linarith
  have m1: "(1 - f) * l1 \<le> (1 - f) * b1" using b(2) f1 by (rule mult_left_mono)
  have a1: "k1 \<le> c1" unfolding c1_def using a0 b(1) m1 k(2) by simp
  have m2: "(1 - f) * l2 \<le> (1 - f) * b2" using b(3) f1 by (rule mult_left_mono)
  have a2: "k2 \<le> c2" unfolding c2_def using a1 m2 k(3) by simp
  have m3: "(1 - f) * l3 \<le> (1 - f) * b3" using b(4) f1 by (rule mult_left_mono)
  have a3: "k3 \<le> c3" unfolding c3_def using a2 m3 k(4) by simp
  have a4: "\<bar>d4\<bar> \<le> 4" by (simp add: d4_def abs_le_iff)
  show ?thesis unfolding tick using a0 a1 a2 a3 a4 by (simp add: taps_above_def)
qed

text \<open>
  Counterexample to C2 as stated.  Resonance 1, sample rate 44100, zeroed taps, a unit
  step, and a normalised cutoff in \<open>[0, 1]\<close> at every sample: 1 for the first sample
  and 0 for the next eleven.  The fourth tap (\<open>filter_prev[3]\<close>) ends above 4.37:
  only \<open>filter_prev[4]\<close> is clamped, and at the low cutoff the third and fourth
  stages integrate what the open filter left in the second.
\<close>

theorem filter_cutoff_sweep:
  "\<not> taps_bounded (filter_run 1 44100 (0, 0, 0, 0, 0) sweep_input)"
proof -
  let ?hi = "\<lambda>t. ladder_tick (232 / 441) (310679 / 324135) t 1"
  let ?lo = "\<lambda>t. ladder_tick (29 / 25000) (12499997477 / 12500000000) t 1"
  define t0 where "t0 = ?hi (0, 0, 0, 0, 0)"
  define t1 where "t1 = ?lo t0"
  define t2 where "t2 = ?lo t1"
  define t3 where "t3 = ?lo t2"
  define t4 where "t4 = ?lo t3"
  define t5 where "t5 = ?lo t4"
  define t6 where "t6 = ?lo t5"
  define t7 where "t7 = ?lo t6"
  define t8 where "t8 = ?lo t7"
  define t9 where "t9 = ?lo t8"
  define t10 where "t10 = ?lo t9"
  define t11 where "t11 = ?lo t10"
  have run: "filter_run 1 44100 (0, 0, 0, 0, 0) sweep_input = t11"
    unfolding sweep_input_def t11_def t10_def t9_def t8_def t7_def t6_def t5_def t4_def t3_def t2_def t1_def t0_def
    by (simp add: coeffs_open coeffs_closed)
  have a0: "taps_above (13409 / 500000) (13409 / 500000) (34863 / 1000000) (22661 / 500000) t0"
    unfolding t0_def by (simp add: ladder_tick_def Let_def taps_above_def)
  have a1: "taps_above (- (1 / 100000000000)) (2177 / 62500) (10013 / 125000) (37351 / 250000) t1"
    unfolding t1_def by (rule ladder_tick_above [OF a0]) simp_all
  have a2: "taps_above (- (1 / 100000000000)) (34791 / 1000000) (125239 / 1000000) (312041 / 1000000) t2"
    unfolding t2_def by (rule ladder_tick_above [OF a1]) simp_all
  have a3: "taps_above (- (1 / 100000000000)) (139 / 4000) (42567 / 250000) (533027 / 1000000) t3"
    unfolding t3_def by (rule ladder_tick_above [OF a2]) simp_all
  have a4: "taps_above (- (1 / 100000000000)) (34709 / 1000000) (26899 / 125000) (406079 / 500000) t4"
    unfolding t4_def by (rule ladder_tick_above [OF a3]) simp_all
  have a5: "taps_above (- (1 / 100000000000)) (8667 / 250000) (26001 / 100000) (287307 / 250000) t5"
    unfolding t5_def by (rule ladder_tick_above [OF a4]) simp_all
  have a6: "taps_above (- (1 / 100000000000)) (34627 / 1000000) (304723 / 1000000) (772017 / 500000) t6"
    unfolding t6_def by (rule ladder_tick_above [OF a5]) simp_all
  have a7: "taps_above (- (1 / 100000000000)) (17293 / 500000) (349331 / 1000000) (1996373 / 1000000) t7"
    unfolding t7_def by (rule ladder_tick_above [OF a6]) simp_all
  have a8: "taps_above (- (1 / 100000000000)) (6909 / 200000) (196917 / 500000) (2506041 / 1000000) t8"
    unfolding t8_def by (rule ladder_tick_above [OF a7]) simp_all
  have a9: "taps_above (- (1 / 100000000000)) (4313 / 125000) (54779 / 125000) (614567 / 200000) t9"
    unfolding t9_def by (rule ladder_tick_above [OF a8]) simp_all
  have a10: "taps_above (- (1 / 100000000000)) (34463 / 1000000) (19301 / 40000) (3696553 / 1000000) t10"
    unfolding t10_def by (rule ladder_tick_above [OF a9]) simp_all
  have a11: "taps_above (- (1 / 100000000000)) (34423 / 1000000) (105343 / 200000) (2188497 / 500000) t11"
    unfolding t11_def by (rule ladder_tick_above [OF a10]) simp_all
  show ?thesis unfolding run using a11
    by (cases t11) (simp add: taps_above_def taps_bounded_def)
qed

end
